theory Spec2Isabelle
  imports Main "HOL-Library.Sublist"
begin

section \<open>Strings and HTML-entity decoding\<close>

text \<open>
  A JavaScript string is modelled as a \<^typ>\<open>string\<close>, one \<^typ>\<open>char\<close> per code unit
  (code units below 256). All patterns and replacements of the tool are ASCII.
\<close>

text \<open>
  \<open>occurs pat s\<close>: the literal \<open>pat\<close> is a substring of \<open>s\<close>.
\<close>

fun occurs :: "string \<Rightarrow> string \<Rightarrow> bool" where
  "occurs pat [] = (pat = [])"
| "occurs pat (c # cs) = (prefix pat (c # cs) \<or> occurs pat cs)"

text \<open>
  \<open>str.replace(/pat/g, rep)\<close> for a non-empty literal pattern and a replacement without
  \<open>$\<close>: scan from the left, replace each match, continue after the end of the match.
  (The source never uses an empty pattern; for it the function leaves the string as it is.)
\<close>

fun replace_all :: "string \<Rightarrow> string \<Rightarrow> string \<Rightarrow> string" where
  "replace_all pat rep [] = []"
| "replace_all pat rep (c # cs) =
     (if pat \<noteq> [] \<and> prefix pat (c # cs)
      then rep @ replace_all pat rep (drop (length pat - 1) cs)
      else c # replace_all pat rep cs)"

text \<open>
  \<^verbatim>\<open>
  decodeHTMLEntities = function (str: string) {
    if (!str) return str;
    return str.replace(/&amp;/g, "&").replace(/&lt;/g, "<").replace(/&gt;/g, ">")
      .replace(/&quot;/g, '"').replace(/&#039;/g, "'");
  };
  \<close>
  The only falsy string is the empty one.
\<close>

definition decodeHTMLEntities :: "string \<Rightarrow> string" where
  "decodeHTMLEntities str =
     (if str = [] then str
      else replace_all ''&#039;'' [CHR 0x27]
            (replace_all ''&quot;'' [CHR 0x22]
              (replace_all ''&gt;'' ''>''
                (replace_all ''&lt;'' ''<''
                  (replace_all ''&amp;'' ''&'' str)))))"

section \<open>The paste configuration and its pattern\<close>

text \<open>
  Regular expressions: the fragment of JavaScript's syntax that the paste pattern uses.
  \<open>LitI c\<close> is the literal \<open>c\<close> under the flag \<open>i\<close>, \<open>NonSpace\<close> is \<open>\S\<close>.
\<close>

datatype atom = LitI char | NonSpace

datatype regex =
    Zero
  | One
  | Atom atom
  | Seq regex regex
  | Alt regex regex
  | Star regex

text \<open>
  Canonicalisation of a code unit for a case-insensitive comparison with an ASCII literal:
  the letters \<open>a\<close> to \<open>z\<close> go to upper case. (A code unit outside ASCII never
  canonicalises to an ASCII one, so it is left as it is.)
\<close>

definition canonicalize :: "char \<Rightarrow> char" where
  "canonicalize c =
     (let n = (of_char c :: nat) in if 97 \<le> n \<and> n \<le> 122 then char_of (n - 32) else c)"

text \<open>White space and line terminators among the code units below 256.\<close>

definition is_space :: "char \<Rightarrow> bool" where
  "is_space c = ((of_char c :: nat) \<in> {9, 10, 11, 12, 13, 32, 160})"

fun atom_ok :: "atom \<Rightarrow> char \<Rightarrow> bool" where
  "atom_ok (LitI c) x = (canonicalize x = canonicalize c)"
| "atom_ok NonSpace x = (\<not> is_space x)"

fun nullable :: "regex \<Rightarrow> bool" where
  "nullable Zero = False"
| "nullable One = True"
| "nullable (Atom a) = False"
| "nullable (Seq r s) = (nullable r \<and> nullable s)"
| "nullable (Alt r s) = (nullable r \<or> nullable s)"
| "nullable (Star r) = True"

fun deriv :: "char \<Rightarrow> regex \<Rightarrow> regex" where
  "deriv c Zero = Zero"
| "deriv c One = Zero"
| "deriv c (Atom a) = (if atom_ok a c then One else Zero)"
| "deriv c (Seq r s) =
     (if nullable r then Alt (Seq (deriv c r) s) (deriv c s) else Seq (deriv c r) s)"
| "deriv c (Alt r s) = Alt (deriv c r) (deriv c s)"
| "deriv c (Star r) = Seq (deriv c r) (Star r)"

text \<open>\<open>full_match r s\<close>: the whole of \<open>s\<close> is a match of \<open>r\<close>.\<close>

fun full_match :: "regex \<Rightarrow> string \<Rightarrow> bool" where
  "full_match r [] = nullable r"
| "full_match r (c # cs) = full_match (deriv c r) cs"

text \<open>
  \<open>/r$/.exec(s)\<close> for a pattern that ends with \<open>$\<close> (no flag \<open>m\<close>) and is not anchored
  at its start: the match starts at the leftmost position from which \<open>r\<close> matches up to
  the end of the input, and is the rest of the input from there. \<open>test\<close> says whether
  there is a match.
\<close>

fun regex_exec :: "regex \<Rightarrow> string \<Rightarrow> string option" where
  "regex_exec r [] = (if nullable r then Some [] else None)"
| "regex_exec r (c # cs) = (if full_match r (c # cs) then Some (c # cs) else regex_exec r cs)"

definition regex_test :: "regex \<Rightarrow> string \<Rightarrow> bool" where
  "regex_test r s = (regex_exec r s \<noteq> None)"

text \<open>
  A pasted text that the pattern matches is handed to \<open>onPaste\<close> as a whole and becomes the
  URL: the pattern matches the pasted text when its match is the whole text.
\<close>

definition matches_pasted_text :: "regex \<Rightarrow> string \<Rightarrow> bool" where
  "matches_pasted_text r text = (regex_exec r text = Some text)"

definition Opt :: "regex \<Rightarrow> regex" where
  "Opt r = Alt r One"

definition Plus :: "regex \<Rightarrow> regex" where
  "Plus r = Seq r (Star r)"

fun word :: "string \<Rightarrow> regex" where
  "word [] = One"
| "word (c # cs) = Seq (Atom (LitI c)) (word cs)"

text \<open>
  \<^verbatim>\<open>image: /https?:\/\/\S+\.(gif|jpe?g|tiff|png|webp)$/i\<close>
  (the body; the final \<open>$\<close> is in \<^const>\<open>regex_exec\<close>).
\<close>

definition image_extensions :: regex where
  "image_extensions =
     Alt (word ''gif'')
       (Alt (Seq (word ''jp'') (Seq (Opt (Atom (LitI CHR ''e''))) (word ''g'')))
         (Alt (word ''tiff'') (Alt (word ''png'') (word ''webp''))))"

definition image_pattern :: regex where
  "image_pattern =
     Seq (word ''http'')
       (Seq (Opt (Atom (LitI CHR ''s'')))
         (Seq (word ''://'')
           (Seq (Plus (Atom NonSpace))
             (Seq (Atom (LitI CHR ''.'')) image_extensions))))"

text \<open>
  \<^verbatim>\<open>
  static get pasteConfig() {
    return {
      patterns: { image: /https?:\/\/\S+\.(gif|jpe?g|tiff|png|webp)$/i },
      tags: [ { img: { src: true } } ],
      files: { mimeTypes: ["image/*"] },
    };
  }
  \<close>
  A tag entry is the tag's name with the attributes it keeps.
\<close>

record PasteConfig =
  patterns :: "(string \<times> regex) list"
  tags :: "(string \<times> string list) list"
  mimeTypes :: "string list"

definition pasteConfig :: PasteConfig where
  "pasteConfig =
     \<lparr> patterns = [(''image'', image_pattern)],
       tags = [(''img'', [''src''])],
       mimeTypes = [''image/*''] \<rparr>"

text \<open>
  The words of the specification: an http or https URL (the scheme in any case) whose
  remainder has no white space and ends with a dot and one of the six extensions.
\<close>

definition upper :: "string \<Rightarrow> string" where
  "upper s = map canonicalize s"

definition is_image_extension :: "string \<Rightarrow> bool" where
  "is_image_extension e =
     (upper e \<in> {''GIF'', ''JPG'', ''JPEG'', ''TIFF'', ''PNG'', ''WEBP''})"

definition is_http_scheme :: "string \<Rightarrow> bool" where
  "is_http_scheme sch = (upper sch \<in> {''HTTP'', ''HTTPS''})"

definition image_url :: "string \<Rightarrow> bool" where
  "image_url s =
     (\<exists>sch rest ext. s = sch @ ''://'' @ rest @ ''.'' @ ext
        \<and> is_http_scheme sch \<and> rest \<noteq> [] \<and> (\<forall>c \<in> set rest. \<not> is_space c)
        \<and> is_image_extension ext)"

section \<open>The block's data record\<close>

text \<open>
  \<^verbatim>\<open>interface SimpleImageData { url: string; caption: string; withBorder?: boolean;
    withBackground?: boolean; stretched?: boolean }\<close>
  The host hands in \<open>{}\<close> for a new block and the tool builds objects with \<open>url\<close> only, so
  every property may be missing: \<open>None\<close> is a property that the object does not have.
  Every object literal of the tool gives its properties defined values.
\<close>

record SimpleImageData =
  url :: "string option"
  caption :: "string option"
  withBorder :: "bool option"
  withBackground :: "bool option"
  stretched :: "bool option"

text \<open>The object \<open>{}\<close>.\<close>

definition empty_data :: SimpleImageData where
  "empty_data =
     \<lparr> url = None, caption = None, withBorder = None, withBackground = None, stretched = None \<rparr>"

text \<open>\<open>Object.assign(target, source)\<close>: the properties of \<open>source\<close> overwrite those of \<open>target\<close>.\<close>

definition override :: "'a option \<Rightarrow> 'a option \<Rightarrow> 'a option" where
  "override old new = (case new of None \<Rightarrow> old | Some v \<Rightarrow> Some v)"

definition assign :: "SimpleImageData \<Rightarrow> SimpleImageData \<Rightarrow> SimpleImageData" where
  "assign target source =
     \<lparr> url = override (url target) (url source),
       caption = override (caption target) (caption source),
       withBorder = override (withBorder target) (withBorder source),
       withBackground = override (withBackground target) (withBackground source),
       stretched = override (stretched target) (stretched source) \<rparr>"

text \<open>Truthiness: \<open>undefined\<close>, \<open>""\<close> and \<open>false\<close> are falsy.\<close>

fun truthy_string :: "string option \<Rightarrow> bool" where
  "truthy_string None = False"
| "truthy_string (Some s) = (s \<noteq> [])"

fun truthy_flag :: "bool option \<Rightarrow> bool" where
  "truthy_flag None = False"
| "truthy_flag (Some b) = b"

text \<open>\<open>x || ""\<close> for a string or \<open>undefined\<close>.\<close>

fun or_empty :: "string option \<Rightarrow> string" where
  "or_empty None = []"
| "or_empty (Some s) = s"

text \<open>A string or \<open>undefined\<close> written to a DOM string property.\<close>

fun to_dom_string :: "string option \<Rightarrow> string" where
  "to_dom_string None = ''undefined''"
| "to_dom_string (Some s) = s"

text \<open>
  \<open>!!data[name]\<close> and \<open>data[name] = value\<close> for a property name. The record holds booleans
  under the three flags only: a boolean written under another name is outside it
  (\<open>None\<close>).
\<close>

definition prop_truthy :: "string \<Rightarrow> SimpleImageData \<Rightarrow> bool" where
  "prop_truthy name d =
     (if name = ''url'' then truthy_string (url d)
      else if name = ''caption'' then truthy_string (caption d)
      else if name = ''withBorder'' then truthy_flag (withBorder d)
      else if name = ''withBackground'' then truthy_flag (withBackground d)
      else if name = ''stretched'' then truthy_flag (stretched d)
      else False)"

definition set_flag :: "string \<Rightarrow> bool \<Rightarrow> SimpleImageData \<Rightarrow> SimpleImageData option" where
  "set_flag name b d =
     (if name = ''withBorder'' then Some (d\<lparr>withBorder := Some b\<rparr>)
      else if name = ''withBackground'' then Some (d\<lparr>withBackground := Some b\<rparr>)
      else if name = ''stretched'' then Some (d\<lparr>stretched := Some b\<rparr>)
      else None)"

section \<open>The document\<close>

text \<open>
  The elements that the tool creates live in a store, since the tool keeps references to
  them and changes them later. \<open>None\<close> as the result of an operation on class lists is a
  \<open>DOMException\<close>: \<open>DOMTokenList\<close> refuses an empty token and a token with ASCII white space.
\<close>

type_synonym node_id = nat

record dom_node =
  tag :: string
  classList :: "string list"
  srcAttr :: string
  html :: string
  contentEditable :: string
  placeholder :: string
  childNodes :: "node_id list"
  parentNode :: "node_id option"

definition ascii_whitespace :: "char \<Rightarrow> bool" where
  "ascii_whitespace c = ((of_char c :: nat) \<in> {9, 10, 12, 13, 32})"

definition valid_token :: "string \<Rightarrow> bool" where
  "valid_token t = (t \<noteq> [] \<and> list_all (\<lambda>c. \<not> ascii_whitespace c) t)"

definition add_token :: "string \<Rightarrow> string list \<Rightarrow> string list" where
  "add_token t cl = (if t \<in> set cl then cl else cl @ [t])"

definition classList_add :: "string list \<Rightarrow> string list \<Rightarrow> string list option" where
  "classList_add tokens cl =
     (if list_all valid_token tokens then Some (fold add_token tokens cl) else None)"

definition classList_remove :: "string \<Rightarrow> string list \<Rightarrow> string list option" where
  "classList_remove t cl = (if valid_token t then Some (removeAll t cl) else None)"

text \<open>\<open>classList.toggle(token, force)\<close>: with \<open>force\<close> the token is added, without it removed.\<close>

definition classList_toggle :: "string \<Rightarrow> bool \<Rightarrow> string list \<Rightarrow> string list option" where
  "classList_toggle t force cl =
     (if force then classList_add [t] cl else classList_remove t cl)"

type_synonym document = "node_id \<rightharpoonup> dom_node"

definition update_node :: "node_id \<Rightarrow> (dom_node \<Rightarrow> dom_node) \<Rightarrow> document \<Rightarrow> document" where
  "update_node i f doc = (case doc i of None \<Rightarrow> doc | Some n \<Rightarrow> doc(i \<mapsto> f n))"

text \<open>\<open>child.remove()\<close>: the element leaves its parent's children.\<close>

definition remove_node :: "node_id \<Rightarrow> document \<Rightarrow> document" where
  "remove_node c doc =
     (case doc c of
        None \<Rightarrow> doc
      | Some n \<Rightarrow>
          (case parentNode n of
             None \<Rightarrow> doc
           | Some p \<Rightarrow>
               update_node c (\<lambda>n. n\<lparr>parentNode := None\<rparr>)
                 (update_node p (\<lambda>n. n\<lparr>childNodes := removeAll c (childNodes n)\<rparr>) doc)))"

text \<open>
  \<open>parent.appendChild(child)\<close>: the child leaves its old parent, if it has one, and becomes
  the last child of the new one. (The tool never appends an ancestor to its descendant,
  which the DOM would refuse.)
\<close>

definition appendChild :: "node_id \<Rightarrow> node_id \<Rightarrow> document \<Rightarrow> document" where
  "appendChild p c doc =
     update_node c (\<lambda>n. n\<lparr>parentNode := Some p\<rparr>)
       (update_node p (\<lambda>n. n\<lparr>childNodes := childNodes n @ [c]\<rparr>) (remove_node c doc))"

text \<open>
  The element that the host hands to \<open>save\<close>, and the element of a pasted tag, are only
  read: they are trees. \<open>src\<close> is what the property \<open>src\<close> returns (the resolved URL),
  \<open>tagName\<close> the local name in lower case.
\<close>

datatype Element =
  Element (tagName: string) (classNames: "string list") (src: string) (innerHTML: string)
    (children: "Element list")

text \<open>
  The first element, in tree order, among the elements of a list and their descendants
  that satisfies \<open>P\<close>.
\<close>

fun find_first :: "(Element \<Rightarrow> bool) \<Rightarrow> Element list \<Rightarrow> Element option" where
  "find_first P [] = None"
| "find_first P (Element t cs s h ch # es) =
     (if P (Element t cs s h ch) then Some (Element t cs s h ch)
      else (case find_first P ch of
              Some e \<Rightarrow> Some e
            | None \<Rightarrow> find_first P es))"

text \<open>\<open>el.querySelector(sel)\<close>: the first descendant of \<open>el\<close> that matches.\<close>

definition querySelector :: "Element \<Rightarrow> (Element \<Rightarrow> bool) \<Rightarrow> Element option" where
  "querySelector el P = find_first P (children el)"

definition tag_selector :: "string \<Rightarrow> Element \<Rightarrow> bool" where
  "tag_selector t e = (tagName e = t)"

definition class_selector :: "string \<Rightarrow> Element \<Rightarrow> bool" where
  "class_selector c e = (c \<in> set (classNames e))"

text \<open>
  \<open>"." + name\<close> is the class selector of \<open>name\<close> when \<open>name\<close> is a CSS identifier; here the
  ASCII ones: letters, digits, \<open>_\<close> and \<open>-\<close>, starting with \<open>--\<close> or with a letter or \<open>_\<close>
  after at most one \<open>-\<close>.
\<close>

definition name_start :: "char \<Rightarrow> bool" where
  "name_start c =
     (let n = (of_char c :: nat) in (65 \<le> n \<and> n \<le> 90) \<or> (97 \<le> n \<and> n \<le> 122) \<or> n = 95)"

definition name_char :: "char \<Rightarrow> bool" where
  "name_char c =
     (let n = (of_char c :: nat) in name_start c \<or> (48 \<le> n \<and> n \<le> 57) \<or> n = 45)"

fun css_identifier :: "string \<Rightarrow> bool" where
  "css_identifier [] = False"
| "css_identifier [c] = name_start c"
| "css_identifier (c # d # cs) =
     ((name_start c \<or> (c = CHR ''-'' \<and> (name_start d \<or> d = CHR ''-'')))
      \<and> list_all name_char (d # cs))"

text \<open>The elements of a list and their descendants, in tree order.\<close>

fun descendants :: "Element list \<Rightarrow> Element list" where
  "descendants [] = []"
| "descendants (Element t cs s h ch # es) =
     Element t cs s h ch # descendants ch @ descendants es"

section \<open>The tool\<close>

text \<open>What the tool reads from the host's API at construction.\<close>

record API =
  styles_block :: string
  styles_loader :: string
  styles_input :: string
  currentBlockIndex :: int

record SimpleImageCSS =
  baseClass :: string
  loading :: string
  input :: string
  wrapperClass :: string
  imageHolderClass :: string
  captionClass :: string

record Nodes =
  wrapper :: "node_id option"
  imageHolder :: "node_id option"
  imageNode :: "node_id option"
  captionNode :: "node_id option"

record Tune =
  name :: string
  label :: string

text \<open>What the \<open>onload\<close> callback that \<open>render\<close> sets on its image has captured.\<close>

record load_handler =
  h_wrapper :: node_id
  h_loader :: node_id
  h_imageHolder :: node_id
  h_image :: node_id
  h_caption :: node_id

text \<open>
  The fields of the class, then what it acts on: the elements it has created, the callbacks
  set on its images, the calls of \<open>api.blocks.stretchBlock\<close> and the lines of the console.
\<close>

record SimpleImage =
  readOnly :: bool
  blockIndex :: int
  data :: SimpleImageData
  CSS :: SimpleImageCSS
  nodes :: Nodes
  doc :: document
  next_id :: node_id
  onload :: "node_id \<rightharpoonup> load_handler"
  onerror :: "node_id list"
  stretchBlock_calls :: "(int \<times> bool) list"
  console :: "string list"

definition tunes :: "Tune list" where
  "tunes =
     [ \<lparr> name = ''withBorder'', label = ''Add Border'' \<rparr>,
       \<lparr> name = ''stretched'', label = ''Stretch Image'' \<rparr>,
       \<lparr> name = ''withBackground'', label = ''Add Background'' \<rparr> ]"

text \<open>
  \<^verbatim>\<open>
  set data(data) {
    if (data.url) { data.url = this.decodeHTMLEntities(data.url); }
    this._data = Object.assign({}, this.data, data);
    if (this.nodes.image) { this.nodes.image.src = this.data.url; }
    if (this.nodes.caption) { this.nodes.caption.innerHTML = this.data.caption; }
  }
  \<close>
\<close>

definition decode_url :: "SimpleImageData \<Rightarrow> SimpleImageData" where
  "decode_url d =
     (case url d of
        None \<Rightarrow> d
      | Some u \<Rightarrow> if u \<noteq> [] then d\<lparr>url := Some (decodeHTMLEntities u)\<rparr> else d)"

definition set_data :: "SimpleImageData \<Rightarrow> SimpleImage \<Rightarrow> SimpleImage" where
  "set_data d st =
     (let d' = assign (assign empty_data (data st)) (decode_url d);
          doc1 = (case imageNode (nodes st) of
                    None \<Rightarrow> doc st
                  | Some i \<Rightarrow> update_node i (\<lambda>n. n\<lparr>srcAttr := to_dom_string (url d')\<rparr>) (doc st));
          doc2 = (case captionNode (nodes st) of
                    None \<Rightarrow> doc1
                  | Some c \<Rightarrow> update_node c (\<lambda>n. n\<lparr>html := to_dom_string (caption d')\<rparr>) doc1)
      in st\<lparr>data := d', doc := doc2\<rparr>)"

text \<open>\<open>get data()\<close>.\<close>

definition get_data :: "SimpleImage \<Rightarrow> SimpleImageData" where
  "get_data st = data st"

text \<open>
  The constructor: \<open>{ data, config, api, readOnly }\<close> (\<open>config\<close> is not read).
  \<^verbatim>\<open>
    this.blockIndex = this.api.blocks.getCurrentBlockIndex() + 1;
    this.CSS = { baseClass: this.api.styles.block, loading: this.api.styles.loader,
      input: this.api.styles.input, wrapper: "cdx-simple-image",
      imageHolder: "cdx-simple-image__picture", caption: "cdx-simple-image__caption" };
    this.nodes = { wrapper: null, imageHolder: null, image: null, caption: null };
    this.data = {
      url: data.url || "",
      caption: data.caption || "",
      withBorder: data.withBorder !== undefined ? data.withBorder : false,
      withBackground: data.withBackground !== undefined ? data.withBackground : false,
      stretched: data.stretched !== undefined ? data.stretched : false,
    };
  \<close>
\<close>

fun or_false :: "bool option \<Rightarrow> bool" where
  "or_false None = False"
| "or_false (Some b) = b"

definition constructor :: "SimpleImageData \<Rightarrow> API \<Rightarrow> bool \<Rightarrow> SimpleImage" where
  "constructor d api ro =
     set_data
       \<lparr> url = Some (if truthy_string (url d) then or_empty (url d) else []),
         caption = Some (if truthy_string (caption d) then or_empty (caption d) else []),
         withBorder = Some (or_false (withBorder d)),
         withBackground = Some (or_false (withBackground d)),
         stretched = Some (or_false (stretched d)) \<rparr>
       \<lparr> readOnly = ro,
         blockIndex = currentBlockIndex api + 1,
         data = empty_data,
         CSS = \<lparr> baseClass = styles_block api,
                 loading = styles_loader api,
                 input = styles_input api,
                 wrapperClass = ''cdx-simple-image'',
                 imageHolderClass = ''cdx-simple-image__picture'',
                 captionClass = ''cdx-simple-image__caption'' \<rparr>,
         nodes = \<lparr> wrapper = None, imageHolder = None, imageNode = None, captionNode = None \<rparr>,
         doc = Map.empty,
         next_id = 0,
         onload = Map.empty,
         onerror = [],
         stretchBlock_calls = [],
         console = [] \<rparr>"

text \<open>
  \<^verbatim>\<open>
  _make(tagName, classNames?: string[] | string, attributes: object = {}) {
    const el = document.createElement(tagName);
    if (Array.isArray(classNames)) { el.classList.add(...classNames); }
    else if (classNames) { el.classList.add(classNames); }
    for (const attrName in attributes) { el[attrName] = attributes[attrName]; }
    return el;
  }
  \<close>
\<close>

datatype class_names = NoClassNames | ClassName string | ClassNames "string list"

datatype attribute = ContentEditable bool | InnerHTML string

fun set_attribute :: "attribute \<Rightarrow> dom_node \<Rightarrow> dom_node" where
  "set_attribute (ContentEditable b) n = n\<lparr>contentEditable := (if b then ''true'' else ''false'')\<rparr>"
| "set_attribute (InnerHTML h) n = n\<lparr>html := h\<rparr>"

definition createElement :: "string \<Rightarrow> dom_node" where
  "createElement t =
     \<lparr> tag = t, classList = [], srcAttr = [], html = [], contentEditable = ''inherit'',
       placeholder = [], childNodes = [], parentNode = None \<rparr>"

fun make_classes :: "class_names \<Rightarrow> string list option" where
  "make_classes NoClassNames = Some []"
| "make_classes (ClassName c) = (if c \<noteq> [] then classList_add [c] [] else Some [])"
| "make_classes (ClassNames cs) = classList_add cs []"

definition make_element ::
  "string \<Rightarrow> class_names \<Rightarrow> attribute list \<Rightarrow> SimpleImage \<Rightarrow> (node_id \<times> SimpleImage) option"
where
  "make_element t cn attrs st =
     (case make_classes cn of
        None \<Rightarrow> None
      | Some cl \<Rightarrow>
          Some (next_id st,
                st\<lparr>doc := (doc st)(next_id st \<mapsto> fold set_attribute attrs ((createElement t)\<lparr>classList := cl\<rparr>)),
                   next_id := Suc (next_id st)\<rparr>))"

text \<open>
  \<open>kebab\<close> is \<open>name.replace(/([A-Z])/g, (g) => `-${g[0].toLowerCase()}`)\<close>.
\<close>

definition is_upper :: "char \<Rightarrow> bool" where
  "is_upper c = (65 \<le> (of_char c :: nat) \<and> (of_char c :: nat) \<le> 90)"

definition to_lower :: "char \<Rightarrow> char" where
  "to_lower c = (if is_upper c then char_of ((of_char c :: nat) + 32) else c)"

fun kebab :: "string \<Rightarrow> string" where
  "kebab [] = []"
| "kebab (c # cs) = (if is_upper c then CHR ''-'' # to_lower c # kebab cs else c # kebab cs)"

definition modifier_class :: "SimpleImageCSS \<Rightarrow> string \<Rightarrow> string" where
  "modifier_class css tune_name = imageHolderClass css @ ''--'' @ kebab tune_name"

text \<open>
  \<^verbatim>\<open>
  _acceptTuneView() {
    this.tunes.forEach((tune) => {
      if (this.nodes.imageHolder) {
        this.nodes.imageHolder.classList.toggle(
          this.CSS.imageHolder + "--" + tune.name.replace(...), !!this.data[tune.name]);
      }
      if (tune.name === "stretched") {
        this.api.blocks.stretchBlock(this.blockIndex, !!this.data.stretched);
      }
    });
  }
  \<close>
\<close>

definition update_classList ::
  "node_id \<Rightarrow> (string list \<Rightarrow> string list option) \<Rightarrow> document \<Rightarrow> document option"
where
  "update_classList i f d =
     (case d i of
        None \<Rightarrow> Some d
      | Some n \<Rightarrow> (case f (classList n) of
                     None \<Rightarrow> None
                   | Some cl \<Rightarrow> Some (d(i \<mapsto> n\<lparr>classList := cl\<rparr>))))"

definition toggle_modifier :: "Tune \<Rightarrow> SimpleImage \<Rightarrow> SimpleImage option" where
  "toggle_modifier tune st =
     (case imageHolder (nodes st) of
        None \<Rightarrow> Some st
      | Some h \<Rightarrow>
          (case update_classList h
                  (classList_toggle (modifier_class (CSS st) (name tune))
                     (prop_truthy (name tune) (data st)))
                  (doc st) of
             None \<Rightarrow> None
           | Some d \<Rightarrow> Some (st\<lparr>doc := d\<rparr>)))"

definition accept_tune :: "Tune \<Rightarrow> SimpleImage \<Rightarrow> SimpleImage option" where
  "accept_tune tune st =
     (case toggle_modifier tune st of
        None \<Rightarrow> None
      | Some st1 \<Rightarrow>
          Some (if name tune = ''stretched''
                then st1\<lparr>stretchBlock_calls :=
                           stretchBlock_calls st1 @ [(blockIndex st1, truthy_flag (stretched (data st1)))]\<rparr>
                else st1))"

fun forEach :: "('a \<Rightarrow> 's \<Rightarrow> 's option) \<Rightarrow> 'a list \<Rightarrow> 's \<Rightarrow> 's option" where
  "forEach f [] st = Some st"
| "forEach f (x # xs) st = (case f x st of None \<Rightarrow> None | Some st1 \<Rightarrow> forEach f xs st1)"

definition acceptTuneView :: "SimpleImage \<Rightarrow> SimpleImage option" where
  "acceptTuneView st = forEach accept_tune tunes st"

text \<open>
  \<^verbatim>\<open>
  _toggleTune(tune: string) {
    this.data[tune] = !this.data[tune];
    this._acceptTuneView();
  }
  \<close>
\<close>

definition toggleTune :: "string \<Rightarrow> SimpleImage \<Rightarrow> SimpleImage option" where
  "toggleTune tune st =
     (case set_flag tune (\<not> prop_truthy tune (data st)) (data st) of
        None \<Rightarrow> None
      | Some d \<Rightarrow> acceptTuneView (st\<lparr>data := d\<rparr>))"

text \<open>
  \<^verbatim>\<open>
  render() {
    const wrapper = this._make("div", [this.CSS.baseClass, this.CSS.wrapper]),
      loader = this._make("div", this.CSS.loading),
      imageHolder = this._make("div", this.CSS.imageHolder),
      image = this._make("img"),
      caption = this._make("div", [this.CSS.input, this.CSS.caption], {
        contentEditable: !this.readOnly, innerHTML: this.data.caption || "" });
    caption.dataset.placeholder = "Enter a caption";
    wrapper.appendChild(loader);
    if (this.data.url) { image.src = this.data.url; }
    image.onload = () => { ... };
    image.onerror = (e) => { console.log("Failed to load an image", e); };
    this.nodes.imageHolder = imageHolder; this.nodes.wrapper = wrapper;
    this.nodes.image = image; this.nodes.caption = caption;
    return wrapper;
  }
  \<close>
\<close>

definition render_wire ::
  "node_id \<Rightarrow> node_id \<Rightarrow> node_id \<Rightarrow> node_id \<Rightarrow> node_id \<Rightarrow> SimpleImage \<Rightarrow> SimpleImage"
where
  "render_wire w l h i c st =
     (let d1 = update_node c (\<lambda>n. n\<lparr>placeholder := ''Enter a caption''\<rparr>) (doc st);
          d2 = appendChild w l d1;
          d3 = (if truthy_string (url (data st))
                then update_node i (\<lambda>n. n\<lparr>srcAttr := or_empty (url (data st))\<rparr>) d2
                else d2)
      in st\<lparr>doc := d3,
            onload := (onload st)(i \<mapsto>
              \<lparr> h_wrapper = w, h_loader = l, h_imageHolder = h, h_image = i, h_caption = c \<rparr>),
            onerror := i # onerror st,
            nodes := \<lparr> wrapper = Some w, imageHolder = Some h, imageNode = Some i,
                       captionNode = Some c \<rparr>\<rparr>)"

definition render :: "SimpleImage \<Rightarrow> (node_id \<times> SimpleImage) option" where
  "render st =
     (case make_element ''div'' (ClassNames [baseClass (CSS st), wrapperClass (CSS st)]) [] st of
        None \<Rightarrow> None
      | Some (w, s1) \<Rightarrow>
     (case make_element ''div'' (ClassName (loading (CSS s1))) [] s1 of
        None \<Rightarrow> None
      | Some (l, s2) \<Rightarrow>
     (case make_element ''div'' (ClassName (imageHolderClass (CSS s2))) [] s2 of
        None \<Rightarrow> None
      | Some (h, s3) \<Rightarrow>
     (case make_element ''img'' NoClassNames [] s3 of
        None \<Rightarrow> None
      | Some (i, s4) \<Rightarrow>
     (case make_element ''div'' (ClassNames [input (CSS s4), captionClass (CSS s4)])
             [ContentEditable (\<not> readOnly s4), InnerHTML (or_empty (caption (data s4)))] s4 of
        None \<Rightarrow> None
      | Some (c, s5) \<Rightarrow> Some (w, render_wire w l h i c s5))))))"

text \<open>
  The callback \<open>image.onload\<close> of \<open>render\<close>:
  \<^verbatim>\<open>
    wrapper.classList.remove(this.CSS.loading);
    imageHolder.appendChild(image);
    wrapper.appendChild(imageHolder);
    wrapper.appendChild(caption);
    loader.remove();
    this._acceptTuneView();
  \<close>
\<close>

definition image_onload :: "load_handler \<Rightarrow> SimpleImage \<Rightarrow> SimpleImage option" where
  "image_onload cb st =
     (case update_classList (h_wrapper cb) (classList_remove (loading (CSS st))) (doc st) of
        None \<Rightarrow> None
      | Some d1 \<Rightarrow>
          acceptTuneView
            (st\<lparr>doc :=
                  remove_node (h_loader cb)
                    (appendChild (h_wrapper cb) (h_caption cb)
                      (appendChild (h_wrapper cb) (h_imageHolder cb)
                        (appendChild (h_imageHolder cb) (h_image cb) d1)))\<rparr>))"

text \<open>The events \<open>load\<close> and \<open>error\<close> of an image: its callback runs, if it has one.\<close>

definition load_event :: "node_id \<Rightarrow> SimpleImage \<Rightarrow> SimpleImage option" where
  "load_event i st = (case onload st i of None \<Rightarrow> Some st | Some cb \<Rightarrow> image_onload cb st)"

definition error_event :: "node_id \<Rightarrow> SimpleImage \<Rightarrow> SimpleImage" where
  "error_event i st =
     (if i \<in> set (onerror st) then st\<lparr>console := console st @ [''Failed to load an image'']\<rparr>
      else st)"

text \<open>
  \<^verbatim>\<open>
  save(blockContent: Element): SimpleImageData {
    const image = blockContent.querySelector("img"),
      caption = blockContent.querySelector("." + this.CSS.input);
    if (!image) { return this.data; }
    const imageUrl = image.src ? this.decodeHTMLEntities(image.src) : "";
    return Object.assign(this.data, { url: imageUrl, caption: caption?.innerHTML || "" });
  }
  \<close>
  The result is the returned record with the tool afterwards. \<open>None\<close>: the class name is
  not an identifier, so that the selector is a syntax error or not a class selector.
\<close>

definition save :: "Element \<Rightarrow> SimpleImage \<Rightarrow> (SimpleImageData \<times> SimpleImage) option" where
  "save blockContent st =
     (if \<not> css_identifier (input (CSS st)) then None
      else
        (let image = querySelector blockContent (tag_selector ''img'');
             cap = querySelector blockContent (class_selector (input (CSS st)))
         in case image of
              None \<Rightarrow> Some (data st, st)
            | Some img \<Rightarrow>
                (let imageUrl = (if src img \<noteq> [] then decodeHTMLEntities (src img) else []);
                     d = assign (data st)
                           (empty_data\<lparr>url := Some imageUrl,
                                       caption := Some (case cap of
                                                          None \<Rightarrow> []
                                                        | Some c \<Rightarrow> if innerHTML c \<noteq> []
                                                                    then innerHTML c else [])\<rparr>)
                 in Some (d, st\<lparr>data := d\<rparr>))))"

text \<open>
  \<^verbatim>\<open>
  onDropHandler(file: File): Promise<SimpleImageData> {
    const reader = new FileReader();
    reader.readAsDataURL(file);
    return new Promise<SimpleImageData>((resolve) => {
      reader.onload = (event) => {
        const target = event.target as FileReader;
        if (typeof target.result === "string") {
          resolve({ url: target.result, caption: file.name });
        }
      };
    });
  }
  \<close>
  A file is its name with what reading it as a data URL gives: \<open>None\<close> when the reader
  fails, so that \<open>onload\<close> never runs. The result is the record with which the promise
  resolves; \<open>None\<close>: the promise stays pending.
\<close>

record File =
  file_name :: string
  dataURL :: "string option"

definition onDropHandler :: "File \<Rightarrow> SimpleImageData option" where
  "onDropHandler file =
     (case dataURL file of
        None \<Rightarrow> None
      | Some r \<Rightarrow> Some (empty_data\<lparr>url := Some r, caption := Some (file_name file)\<rparr>))"

text \<open>
  \<^verbatim>\<open>
  onPaste(event: PasteEvent) {
    switch (event.type) {
      case "tag": {
        const img = event.detail.data;
        if (img instanceof HTMLImageElement) {
          this.data = { url: this.decodeHTMLEntities(img.src) };
        }
        break;
      }
      case "pattern": {
        const { data: text } = event.detail;
        this.data = { url: this.decodeHTMLEntities(text) };
        break;
      }
      case "file": {
        const { file } = event.detail;
        this.onDropHandler(file).then((data) => { this.data = data; });
        break;
      }
    }
  }
  \<close>
  The events by their type, each with its detail; \<open>OtherPasteEvent\<close> is an event of any
  other type. The result is the tool after the call, with the record of the promise on
  which the call has left the callback \<open>this.data = data\<close>; \<open>promise_then\<close> is that callback
  on the tool as it is when the promise resolves.
\<close>

datatype PasteEvent =
    HTMLPasteEvent Element
  | PatternPasteEvent string
  | FilePasteEvent File
  | OtherPasteEvent

fun onPaste :: "PasteEvent \<Rightarrow> SimpleImage \<Rightarrow> SimpleImage \<times> SimpleImageData option" where
  "onPaste (HTMLPasteEvent img) st =
     (if tagName img = ''img''
      then (set_data (empty_data\<lparr>url := Some (decodeHTMLEntities (src img))\<rparr>) st, None)
      else (st, None))"
| "onPaste (PatternPasteEvent text) st =
     (set_data (empty_data\<lparr>url := Some (decodeHTMLEntities text)\<rparr>) st, None)"
| "onPaste (FilePasteEvent file) st = (st, onDropHandler file)"
| "onPaste OtherPasteEvent st = (st, None)"

fun promise_then :: "SimpleImageData option \<Rightarrow> SimpleImage \<Rightarrow> SimpleImage" where
  "promise_then None st = st"
| "promise_then (Some d) st = set_data d st"

text \<open>
  What the host and the browser can do to a rendered tool, the event \<open>load\<close> apart; a run
  stops (\<open>None\<close>) at an action that throws.
\<close>

datatype action =
    SetData SimpleImageData
  | Save Element
  | Paste PasteEvent
  | Resolve SimpleImageData
  | ToggleTune string
  | ErrorEvent node_id

fun step :: "action \<Rightarrow> SimpleImage \<Rightarrow> SimpleImage option" where
  "step (SetData d) st = Some (set_data d st)"
| "step (Save e) st = map_option snd (save e st)"
| "step (Paste ev) st = Some (fst (onPaste ev st))"
| "step (Resolve d) st = Some (promise_then (Some d) st)"
| "step (ToggleTune t) st = toggleTune t st"
| "step (ErrorEvent i) st = Some (error_event i st)"

definition run :: "action list \<Rightarrow> SimpleImage \<Rightarrow> SimpleImage option" where
  "run acts st = forEach step acts st"

text \<open>The class names of a tool are tokens that the DOM accepts.\<close>

definition valid_CSS :: "SimpleImageCSS \<Rightarrow> bool" where
  "valid_CSS css =
     list_all valid_token
       [baseClass css, loading css, input css, wrapperClass css, imageHolderClass css,
        captionClass css]"

text \<open>Whether the image holder of the tool has the modifier class of a tune.\<close>

definition modifier_present :: "SimpleImage \<Rightarrow> string \<Rightarrow> bool" where
  "modifier_present st tune_name =
     (case imageHolder (nodes st) of
        None \<Rightarrow> False
      | Some h \<Rightarrow> (case doc st h of
                     None \<Rightarrow> False
                   | Some n \<Rightarrow> modifier_class (CSS st) tune_name \<in> set (classList n)))"

definition children_of :: "SimpleImage \<Rightarrow> node_id \<Rightarrow> node_id list option" where
  "children_of st i = map_option childNodes (doc st i)"

definition parent_of :: "SimpleImage \<Rightarrow> node_id \<Rightarrow> node_id option option" where
  "parent_of st i = map_option parentNode (doc st i)"

section \<open>Languages of regular expressions\<close>

inductive_set star :: "string set \<Rightarrow> string set" for A :: "string set" where
  star_Nil: "[] \<in> star A"
| star_App: "u \<in> A \<Longrightarrow> v \<in> star A \<Longrightarrow> u @ v \<in> star A"

fun lang :: "regex \<Rightarrow> string set" where
  "lang Zero = {}"
| "lang One = {[]}"
| "lang (Atom a) = {[c] | c. atom_ok a c}"
| "lang (Seq r s) = {u @ v | u v. u \<in> lang r \<and> v \<in> lang s}"
| "lang (Alt r s) = lang r \<union> lang s"
| "lang (Star r) = star (lang r)"

definition conc :: "string set \<Rightarrow> string set \<Rightarrow> string set" where
  "conc A B = {u @ v | u v. u \<in> A \<and> v \<in> B}"

section \<open>Examples and auxiliary definitions\<close>

text \<open>The class names of Editor.js, a file and a rendered block.\<close>

definition example_api :: API where
  "example_api =
     \<lparr> styles_block = ''cdx-block'', styles_loader = ''cdx-loader'',
       styles_input = ''cdx-input'', currentBlockIndex = 0 \<rparr>"

definition example_file :: File where
  "example_file = \<lparr> file_name = ''a.png'', dataURL = Some ''data:image/png;base64,AAAA'' \<rparr>"

definition example_block :: Element where
  "example_block =
     Element ''div'' [''cdx-block'', ''cdx-simple-image''] [] []
       [ Element ''div'' [''cdx-simple-image__picture''] [] []
           [ Element ''img'' [] ''http://x/a.png?b=1&amp;c=2'' [] [] ],
         Element ''div'' [''cdx-input'', ''cdx-simple-image__caption''] [] ''A <b>cat</b>'' [] ]"

text \<open>The classes of the image holder after \<open>_acceptTuneView\<close>.\<close>

definition set_modifier :: "SimpleImage \<Rightarrow> string \<Rightarrow> string list \<Rightarrow> string list" where
  "set_modifier st tune_name cl =
     (if prop_truthy tune_name (data st) then add_token (modifier_class (CSS st) tune_name) cl
      else removeAll (modifier_class (CSS st) tune_name) cl)"

text \<open>The three tunes in the order of \<open>tunes\<close>.\<close>

definition tune_classes :: "SimpleImage \<Rightarrow> string list \<Rightarrow> string list" where
  "tune_classes st cl =
     set_modifier st ''withBackground'' (set_modifier st ''stretched'' (set_modifier st ''withBorder'' cl))"

definition tune_names :: "string set" where
  "tune_names = {''withBorder'', ''stretched'', ''withBackground''}"

text \<open>The tool after \<open>_make\<close> has created an element with these classes.\<close>

definition new_element :: "string \<Rightarrow> string list \<Rightarrow> attribute list \<Rightarrow> SimpleImage \<Rightarrow> SimpleImage" where
  "new_element t cl attrs st =
     st\<lparr>doc := (doc st)(next_id st \<mapsto> fold set_attribute attrs ((createElement t)\<lparr>classList := cl\<rparr>)),
        next_id := Suc (next_id st)\<rparr>"

text \<open>The tool after \<open>render\<close>, when its class names are tokens.\<close>

definition rendered :: "SimpleImage \<Rightarrow> SimpleImage" where
  "rendered st =
     (let w = next_id st; l = Suc w; h = Suc l; i = Suc h; c = Suc i in
      render_wire w l h i c
        (st\<lparr>doc := (doc st)
               (w \<mapsto> (createElement ''div'')\<lparr>classList := add_token (wrapperClass (CSS st)) [baseClass (CSS st)]\<rparr>,
                l \<mapsto> (createElement ''div'')\<lparr>classList := [loading (CSS st)]\<rparr>,
                h \<mapsto> (createElement ''div'')\<lparr>classList := [imageHolderClass (CSS st)]\<rparr>,
                i \<mapsto> createElement ''img'',
                c \<mapsto> (createElement ''div'')
                       \<lparr>classList := add_token (captionClass (CSS st)) [input (CSS st)],
                        contentEditable := (if readOnly st then ''false'' else ''true''),
                        html := or_empty (caption (data st))\<rparr>),
            next_id := Suc c\<rparr>))"

text \<open>The document after \<open>_acceptTuneView\<close>.\<close>

definition tuned_doc :: "SimpleImage \<Rightarrow> document" where
  "tuned_doc st =
     (case imageHolder (nodes st) of
        None \<Rightarrow> doc st
      | Some h \<Rightarrow> (case doc st h of
                     None \<Rightarrow> doc st
                   | Some n \<Rightarrow> (doc st)(h \<mapsto> n\<lparr>classList := tune_classes st (classList n)\<rparr>)))"

text \<open>
  The tree of a document: the children and the parent of every element. With the class
  names, the references to the elements and the callbacks it is the frame of the tool,
  which only \<open>render\<close> and the event \<open>load\<close> change.
\<close>

definition doc_shape :: "document \<Rightarrow> node_id \<Rightarrow> (node_id list \<times> node_id option) option" where
  "doc_shape d i = map_option (\<lambda>n. (childNodes n, parentNode n)) (d i)"

definition frame ::
  "SimpleImage \<Rightarrow>
   SimpleImageCSS \<times> Nodes \<times> (node_id \<rightharpoonup> load_handler) \<times> node_id list
     \<times> (node_id \<Rightarrow> (node_id list \<times> node_id option) option)"
where
  "frame st = (CSS st, nodes st, onload st, onerror st, doc_shape (doc st))"

section \<open>Global replacement\<close>

lemma occurs_Nil_pat [simp]: "occurs [] s"
  by (cases s) auto

lemma occurs_iff: "occurs pat s \<longleftrightarrow> (\<exists>u v. s = u @ pat @ v)"
proof (induction s)
  case Nil
  then show ?case by auto
next
  case (Cons c cs)
  show ?case
  proof
    assume "occurs pat (c # cs)"
    then consider "prefix pat (c # cs)" | "occurs pat cs" by auto
    then show "\<exists>u v. c # cs = u @ pat @ v"
    proof cases
      case 1
      then obtain v where "c # cs = pat @ v" by (auto simp: prefix_def)
      then have "c # cs = [] @ pat @ v" by simp
      then show ?thesis by blast
    next
      case 2
      with Cons.IH obtain u v where "cs = u @ pat @ v" by blast
      then have "c # cs = (c # u) @ pat @ v" by simp
      then show ?thesis by blast
    qed
  next
    assume "\<exists>u v. c # cs = u @ pat @ v"
    then obtain u v where uv: "c # cs = u @ pat @ v" by blast
    show "occurs pat (c # cs)"
    proof (cases u)
      case Nil
      with uv have "prefix pat (c # cs)" by (simp add: prefix_def)
      then show ?thesis by simp
    next
      case (Cons x u')
      with uv have "cs = u' @ pat @ v" by simp
      with Cons.IH have "occurs pat cs" by blast
      then show ?thesis by simp
    qed
  qed
qed

lemma occurs_drop: "occurs pat (drop n s) \<Longrightarrow> occurs pat s"
proof -
  assume "occurs pat (drop n s)"
  then obtain u v where "drop n s = u @ pat @ v" by (auto simp: occurs_iff)
  then have "s = (take n s @ u) @ pat @ v" by (metis append.assoc append_take_drop_id)
  then show ?thesis unfolding occurs_iff by blast
qed

text \<open>A string without the pattern is left as it is.\<close>

lemma replace_all_absent: "\<not> occurs pat s \<Longrightarrow> replace_all pat rep s = s"
  by (induction s) auto

text \<open>
  The first match is replaced and the scan goes on behind it: with
  \<open>replace_all_absent\<close> this determines the result.
\<close>

lemma replace_all_first:
  "pat \<noteq> [] \<Longrightarrow> \<not> occurs pat (u @ butlast pat) \<Longrightarrow>
   replace_all pat rep (u @ pat @ v) = u @ rep @ replace_all pat rep v"
proof (induction u)
  case Nil
  then show ?case by (cases pat) auto
next
  case (Cons x u)
  have "\<not> prefix pat (x # u @ pat @ v)"
  proof
    assume p: "prefix pat (x # u @ pat @ v)"
    have "length pat \<le> length ((x # u) @ butlast pat)" by simp
    moreover have "x # u @ pat @ v = ((x # u) @ butlast pat) @ (last pat # v)"
      using Cons.prems(1) by simp
    ultimately have "prefix pat ((x # u) @ butlast pat)"
      using p by (metis prefix_length_prefix prefixI)
    then show False using Cons.prems(2) by simp
  qed
  moreover have "\<not> occurs pat (u @ butlast pat)" using Cons.prems(2) by simp
  ultimately show ?case using Cons by simp
qed

text \<open>
  Replacing by one character that the pattern \<open>q\<close> does not contain makes no new
  occurrence of \<open>q\<close>, and leaves none of the replaced pattern.
\<close>

lemma prefix_replace_all:
  "c \<notin> set q \<Longrightarrow> prefix q (replace_all pat [c] s) \<Longrightarrow> prefix q s"
proof (induction s arbitrary: q)
  case Nil
  then show ?case by simp
next
  case (Cons x xs)
  show ?case
  proof (cases q)
    case Nil
    then show ?thesis by simp
  next
    case (Cons y q')
    with Cons.prems Cons.IH[of q'] show ?thesis
      by (auto split: if_splits)
  qed
qed

lemma replace_all_no_new:
  "c \<notin> set q \<Longrightarrow> \<not> occurs q s \<Longrightarrow> \<not> occurs q (replace_all pat [c] s)"
proof (induction pat "[c]" s rule: replace_all.induct)
  case (1 pat)
  then show ?case by simp
next
  case (2 pat x xs)
  have qne: "q \<noteq> []" using 2(4) by auto
  show ?case
  proof (cases "pat \<noteq> [] \<and> prefix pat (x # xs)")
    case True
    have "\<not> occurs q (drop (length pat - 1) xs)"
      using 2(4) occurs_drop[of q "length pat - 1" xs] by auto
    with 2(1)[OF True 2(3)] have "\<not> occurs q (replace_all pat [c] (drop (length pat - 1) xs))" .
    moreover have "\<not> prefix q (c # replace_all pat [c] (drop (length pat - 1) xs))"
      using qne 2(3) by (cases q) auto
    ultimately show ?thesis using True by simp
  next
    case False
    have "\<not> occurs q xs" using 2(4) by auto
    with 2(2)[OF False 2(3)] have a: "\<not> occurs q (replace_all pat [c] xs)" .
    have "\<not> prefix q (x # xs)" using 2(4) by auto
    then have "\<not> prefix q (replace_all pat [c] (x # xs))"
      using prefix_replace_all[OF 2(3)] by blast
    with a False show ?thesis by auto
  qed
qed

lemma replace_all_removes:
  "c \<notin> set pat \<Longrightarrow> pat \<noteq> [] \<Longrightarrow> \<not> occurs pat (replace_all pat [c] s)"
proof (induction pat "[c]" s rule: replace_all.induct)
  case (1 pat)
  then show ?case by simp
next
  case (2 pat x xs)
  show ?case
  proof (cases "prefix pat (x # xs)")
    case True
    have "\<not> prefix pat (c # replace_all pat [c] (drop (length pat - 1) xs))"
      using 2(3,4) by (cases pat) auto
    with True 2 show ?thesis by simp
  next
    case False
    then have "\<not> prefix pat (replace_all pat [c] (x # xs))"
      using prefix_replace_all[OF 2(3)] by blast
    with False 2 show ?thesis by auto
  qed
qed

lemma length_replace_all_le:
  "length rep \<le> length pat \<Longrightarrow> length (replace_all pat rep s) \<le> length s"
proof (induction pat rep s rule: replace_all.induct)
  case (1 pat rep)
  then show ?case by simp
next
  case (2 pat rep x xs)
  show ?case
  proof (cases "pat \<noteq> [] \<and> prefix pat (x # xs)")
    case True
    then have "length pat \<le> length (x # xs)" by (auto dest: prefix_length_le)
    with True 2 show ?thesis by auto
  next
    case False
    with 2 show ?thesis by auto
  qed
qed

lemma length_replace_all_less:
  "length rep < length pat \<Longrightarrow> occurs pat s \<Longrightarrow> length (replace_all pat rep s) < length s"
proof (induction pat rep s rule: replace_all.induct)
  case (1 pat rep)
  then show ?case by simp
next
  case (2 pat rep x xs)
  have pne: "pat \<noteq> []" using 2(3) by auto
  show ?case
  proof (cases "prefix pat (x # xs)")
    case True
    then have l: "length pat \<le> length (x # xs)" by (auto dest: prefix_length_le)
    have "length (replace_all pat rep (drop (length pat - 1) xs)) \<le> length (drop (length pat - 1) xs)"
      using 2(3) by (intro length_replace_all_le) simp
    with True pne l 2(3) show ?thesis by auto
  next
    case False
    with 2 pne show ?thesis by auto
  qed
qed

section \<open>Decoding\<close>

lemma decode_chain:
  "decodeHTMLEntities s =
     replace_all ''&#039;'' [CHR 0x27]
       (replace_all ''&quot;'' [CHR 0x22]
         (replace_all ''&gt;'' ''>''
           (replace_all ''&lt;'' ''<''
             (replace_all ''&amp;'' ''&'' s))))"
  by (simp add: decodeHTMLEntities_def)

lemma decode_without_entities:
  assumes "\<not> occurs ''&amp;'' t" "\<not> occurs ''&lt;'' t" "\<not> occurs ''&gt;'' t"
    "\<not> occurs ''&quot;'' t" "\<not> occurs ''&#039;'' t"
  shows "decodeHTMLEntities t = t"
  unfolding decode_chain using assms by (simp add: replace_all_absent)

lemma decode_leaves_amp_only:
  "\<not> occurs ''&lt;'' (decodeHTMLEntities s)"
  "\<not> occurs ''&gt;'' (decodeHTMLEntities s)"
  "\<not> occurs ''&quot;'' (decodeHTMLEntities s)"
  "\<not> occurs ''&#039;'' (decodeHTMLEntities s)"
proof -
  define t1 where "t1 = replace_all ''&amp;'' ''&'' s"
  define t2 where "t2 = replace_all ''&lt;'' ''<'' t1"
  define t3 where "t3 = replace_all ''&gt;'' ''>'' t2"
  define t4 where "t4 = replace_all ''&quot;'' [CHR 0x22] t3"
  define t5 where "t5 = replace_all ''&#039;'' [CHR 0x27] t4"
  have d: "decodeHTMLEntities s = t5"
    unfolding decode_chain t1_def t2_def t3_def t4_def t5_def ..
  have lt2: "\<not> occurs ''&lt;'' t2" unfolding t2_def by (rule replace_all_removes) simp_all
  have lt3: "\<not> occurs ''&lt;'' t3" unfolding t3_def using lt2 by (intro replace_all_no_new) simp_all
  have lt4: "\<not> occurs ''&lt;'' t4" unfolding t4_def using lt3 by (intro replace_all_no_new) simp_all
  have gt3: "\<not> occurs ''&gt;'' t3" unfolding t3_def by (rule replace_all_removes) simp_all
  have gt4: "\<not> occurs ''&gt;'' t4" unfolding t4_def using gt3 by (intro replace_all_no_new) simp_all
  have qu4: "\<not> occurs ''&quot;'' t4" unfolding t4_def by (rule replace_all_removes) simp_all
  show "\<not> occurs ''&lt;'' (decodeHTMLEntities s)"
    unfolding d t5_def using lt4 by (intro replace_all_no_new) simp_all
  show "\<not> occurs ''&gt;'' (decodeHTMLEntities s)"
    unfolding d t5_def using gt4 by (intro replace_all_no_new) simp_all
  show "\<not> occurs ''&quot;'' (decodeHTMLEntities s)"
    unfolding d t5_def using qu4 by (intro replace_all_no_new) simp_all
  show "\<not> occurs ''&#039;'' (decodeHTMLEntities s)"
    unfolding d t5_def by (rule replace_all_removes) simp_all
qed

lemma decode_shrinks:
  assumes "occurs ''&amp;'' t"
  shows "length (decodeHTMLEntities t) < length t"
proof -
  have "length (replace_all ''&amp;'' ''&'' t) < length t"
    using assms by (intro length_replace_all_less) simp_all
  moreover have "length (decodeHTMLEntities t) \<le> length (replace_all ''&amp;'' ''&'' t)"
    unfolding decode_chain
    by (intro order_trans[OF length_replace_all_le] length_replace_all_le) simp_all
  ultimately show ?thesis by simp
qed

text \<open>
  C2: for every string \<open>s\<close>, \<open>decodeHTMLEntities(s)\<close> is the result of the global
  substitutions of \<open>&amp;\<close>, \<open>&lt;\<close>, \<open>&gt;\<close>, \<open>&quot;\<close> and \<open>&#039;\<close>, in this order;
  the falsy string, which is the empty one, is returned as it is.
\<close>

theorem decodeHTMLEntities_substitutions:
  "decodeHTMLEntities s =
     replace_all ''&#039;'' [CHR 0x27]
       (replace_all ''&quot;'' [CHR 0x22]
         (replace_all ''&gt;'' ''>''
           (replace_all ''&lt;'' ''<''
             (replace_all ''&amp;'' ''&'' s))))
   \<and> decodeHTMLEntities [] = []"
  by (simp add: decodeHTMLEntities_def)

theorem decodeHTMLEntities_substitutions_witness:
  "decodeHTMLEntities ''&lt;b&gt;&quot;x&amp;y&#039;'' = ''<b>'' @ [CHR 0x22] @ ''x&y'' @ [CHR 0x27]"
  using decodeHTMLEntities_substitutions[of "''&lt;b&gt;&quot;x&amp;y&#039;''"] by simp

text \<open>
  C9, as stated: decoding twice is decoding once. It is not: the decoded form of
  \<open>&amp;amp;\<close> is \<open>&amp;\<close>, which decodes to \<open>&\<close>.
\<close>

theorem decodeHTMLEntities_not_idempotent:
  "decodeHTMLEntities (decodeHTMLEntities ''&amp;amp;'') \<noteq> decodeHTMLEntities ''&amp;amp;''"
  by (simp add: decodeHTMLEntities_def)

text \<open>
  C9, amended: decoding a decoded string again changes nothing exactly when the decoded
  string has no \<open>&amp;\<close> in it. (A decoded string never has one of the other four
  entities.)
\<close>

theorem decodeHTMLEntities_twice:
  "decodeHTMLEntities (decodeHTMLEntities s) = decodeHTMLEntities s
   \<longleftrightarrow> \<not> occurs ''&amp;'' (decodeHTMLEntities s)"
proof
  assume eq: "decodeHTMLEntities (decodeHTMLEntities s) = decodeHTMLEntities s"
  show "\<not> occurs ''&amp;'' (decodeHTMLEntities s)"
  proof
    assume "occurs ''&amp;'' (decodeHTMLEntities s)"
    then have "length (decodeHTMLEntities (decodeHTMLEntities s)) < length (decodeHTMLEntities s)"
      by (rule decode_shrinks)
    with eq show False by simp
  qed
next
  assume "\<not> occurs ''&amp;'' (decodeHTMLEntities s)"
  then show "decodeHTMLEntities (decodeHTMLEntities s) = decodeHTMLEntities s"
    by (intro decode_without_entities decode_leaves_amp_only)
qed

theorem decodeHTMLEntities_twice_witness:
  "decodeHTMLEntities ''&amp;lt;'' = ''<''
   \<and> decodeHTMLEntities (decodeHTMLEntities ''&amp;lt;'') = decodeHTMLEntities ''&amp;lt;''"
proof -
  have d: "decodeHTMLEntities ''&amp;lt;'' = ''<''" by (simp add: decodeHTMLEntities_def)
  have "\<not> occurs ''&amp;'' (decodeHTMLEntities ''&amp;lt;'')" unfolding d by simp
  with decodeHTMLEntities_twice[of "''&amp;lt;''"] d show ?thesis by blast
qed


section \<open>The paste pattern\<close>

lemma nullable_lang: "nullable r \<longleftrightarrow> [] \<in> lang r"
  by (induction r) (auto intro: star.intros)

lemma lang_SeqI: "u \<in> lang r \<Longrightarrow> v \<in> lang s \<Longrightarrow> u @ v \<in> lang (Seq r s)"
  by auto

lemma star_Cons_split:
  "x \<in> star A \<Longrightarrow> x = c # w \<Longrightarrow> \<exists>u v. w = u @ v \<and> c # u \<in> A \<and> v \<in> star A"
proof (induction x rule: star.induct)
  case star_Nil
  then show ?case by simp
next
  case (star_App u v)
  show ?case
  proof (cases u)
    case Nil
    with star_App show ?thesis by simp
  next
    case (Cons x u')
    with star_App.prems have "w = u' @ v" "c # u' = u" by auto
    with star_App.hyps show ?thesis by blast
  qed
qed

lemma star_Cons:
  "c # w \<in> star A \<longleftrightarrow> (\<exists>u v. w = u @ v \<and> c # u \<in> A \<and> v \<in> star A)"
proof
  assume "c # w \<in> star A"
  then show "\<exists>u v. w = u @ v \<and> c # u \<in> A \<and> v \<in> star A"
    using star_Cons_split by blast
next
  assume "\<exists>u v. w = u @ v \<and> c # u \<in> A \<and> v \<in> star A"
  then obtain u v where "w = u @ v" "c # u \<in> A" "v \<in> star A" by blast
  then show "c # w \<in> star A" using star_App[of "c # u" A v] by simp
qed

text \<open>The derivative by \<open>c\<close> has the words that \<open>c\<close> in front makes words of the expression.\<close>

lemma lang_deriv: "w \<in> lang (deriv c r) \<longleftrightarrow> c # w \<in> lang r"
proof (induction r arbitrary: w)
  case (Seq r s)
  show ?case
  proof
    assume "w \<in> lang (deriv c (Seq r s))"
    then consider u v where "w = u @ v" "u \<in> lang (deriv c r)" "v \<in> lang s"
      | "nullable r" "w \<in> lang (deriv c s)"
      by (auto split: if_splits)
    then show "c # w \<in> lang (Seq r s)"
    proof cases
      case 1
      then have "c # u \<in> lang r" using Seq.IH(1) by simp
      from lang_SeqI[OF this 1(3)] 1(1) show ?thesis by simp
    next
      case 2
      then have "[] \<in> lang r" "c # w \<in> lang s"
        using Seq.IH(2) nullable_lang by auto
      from lang_SeqI[OF this] show ?thesis by simp
    qed
  next
    assume "c # w \<in> lang (Seq r s)"
    then obtain u v where uv: "c # w = u @ v" "u \<in> lang r" "v \<in> lang s" by auto
    show "w \<in> lang (deriv c (Seq r s))"
    proof (cases u)
      case Nil
      with uv have "nullable r" "w \<in> lang (deriv c s)"
        using Seq.IH(2) nullable_lang by auto
      then show ?thesis by simp
    next
      case (Cons x u')
      with uv have w: "w = u' @ v" and "u' \<in> lang (deriv c r)" using Seq.IH(1) by auto
      from lang_SeqI[OF this(2) uv(3)] w have "w \<in> lang (Seq (deriv c r) s)" by simp
      then show ?thesis by (simp split: if_splits)
    qed
  qed
next
  case (Star r)
  have "w \<in> lang (deriv c (Star r)) \<longleftrightarrow> (\<exists>u v. w = u @ v \<and> u \<in> lang (deriv c r) \<and> v \<in> star (lang r))"
    by simp
  also have "\<dots> \<longleftrightarrow> (\<exists>u v. w = u @ v \<and> c # u \<in> lang r \<and> v \<in> star (lang r))"
    using Star.IH by simp
  also have "\<dots> \<longleftrightarrow> c # w \<in> lang (Star r)"
    by (simp add: star_Cons)
  finally show ?case .
qed auto

lemma full_match_lang: "full_match r s \<longleftrightarrow> s \<in> lang r"
  by (induction s arbitrary: r) (auto simp: nullable_lang lang_deriv)

lemma regex_exec_suffix: "regex_exec r s = Some v \<Longrightarrow> suffix v s"
  by (induction s) (auto split: if_splits simp: suffix_Cons)

text \<open>The match is the whole text exactly when the expression matches the whole text.\<close>

lemma regex_exec_whole: "regex_exec r s = Some s \<longleftrightarrow> full_match r s"
proof (cases s)
  case Nil
  then show ?thesis by simp
next
  case (Cons c cs)
  have "regex_exec r cs \<noteq> Some (c # cs)"
  proof
    assume "regex_exec r cs = Some (c # cs)"
    then have "suffix (c # cs) cs" by (rule regex_exec_suffix)
    then show False by (auto dest: suffix_length_le)
  qed
  with Cons show ?thesis by simp
qed

lemma split_Cons_suffix:
  "(\<exists>u v. c # cs = u @ v \<and> P v) \<longleftrightarrow> P (c # cs) \<or> (\<exists>u v. cs = u @ v \<and> P v)"
proof
  assume "\<exists>u v. c # cs = u @ v \<and> P v"
  then obtain u v where uv: "c # cs = u @ v" "P v" by blast
  show "P (c # cs) \<or> (\<exists>u v. cs = u @ v \<and> P v)"
  proof (cases u)
    case Nil
    with uv show ?thesis by simp
  next
    case (Cons x u')
    with uv have "cs = u' @ v" by simp
    with uv(2) show ?thesis by blast
  qed
next
  assume "P (c # cs) \<or> (\<exists>u v. cs = u @ v \<and> P v)"
  then show "\<exists>u v. c # cs = u @ v \<and> P v"
  proof
    assume "P (c # cs)"
    then have "c # cs = [] @ (c # cs) \<and> P (c # cs)" by simp
    then show ?thesis by blast
  next
    assume "\<exists>u v. cs = u @ v \<and> P v"
    then obtain u v where "cs = u @ v" "P v" by blast
    then have "c # cs = (c # u) @ v \<and> P v" by simp
    then show ?thesis by blast
  qed
qed

text \<open>There is a match exactly when the expression matches an end of the text.\<close>

lemma regex_test_iff: "regex_test r s \<longleftrightarrow> (\<exists>u v. s = u @ v \<and> full_match r v)"
proof (induction s)
  case Nil
  then show ?case by (simp add: regex_test_def)
next
  case (Cons c cs)
  have "regex_test r (c # cs) \<longleftrightarrow> full_match r (c # cs) \<or> regex_test r cs"
    by (simp add: regex_test_def)
  also have "\<dots> \<longleftrightarrow> full_match r (c # cs) \<or> (\<exists>u v. cs = u @ v \<and> full_match r v)"
    using Cons.IH by simp
  also have "\<dots> \<longleftrightarrow> (\<exists>u v. c # cs = u @ v \<and> full_match r v)"
    by (rule split_Cons_suffix[symmetric])
  finally show ?case .
qed

lemma of_char_canonicalize:
  "(of_char (canonicalize x) :: nat) =
     (if 97 \<le> (of_char x :: nat) \<and> (of_char x :: nat) \<le> 122 then of_char x - 32 else of_char x)"
proof (cases "97 \<le> (of_char x :: nat) \<and> (of_char x :: nat) \<le> 122")
  case True
  then have "(of_char x :: nat) - 32 < 256" by arith
  then have "((of_char x :: nat) - 32) mod 256 = of_char x - 32" by (rule mod_less)
  with True show ?thesis by (simp add: canonicalize_def Let_def)
next
  case False
  then show ?thesis by (auto simp: canonicalize_def Let_def)
qed

text \<open>Only a character itself canonicalises to a character that is not an upper-case letter.\<close>

lemma canonicalize_fixed:
  assumes "(of_char c :: nat) \<notin> {65..90}" "canonicalize x = c"
  shows "x = c"
proof -
  have "(of_char c :: nat) = (if 97 \<le> (of_char x :: nat) \<and> (of_char x :: nat) \<le> 122 then of_char x - 32 else of_char x)"
    using of_char_canonicalize[of x] assms(2) by simp
  with assms(1) have "\<not> (97 \<le> (of_char x :: nat) \<and> (of_char x :: nat) \<le> 122)"
    by (auto split: if_splits)
  with assms(2) show ?thesis by (auto simp: canonicalize_def Let_def)
qed

lemma canonicalize_colon: "canonicalize x = CHR '':'' \<longleftrightarrow> x = CHR '':''"
  using canonicalize_fixed[of "CHR '':''" x] by (auto simp: canonicalize_def)

lemma canonicalize_slash: "canonicalize x = CHR ''/'' \<longleftrightarrow> x = CHR ''/''"
  using canonicalize_fixed[of "CHR ''/''" x] by (auto simp: canonicalize_def)

lemma canonicalize_dot: "canonicalize x = CHR ''.'' \<longleftrightarrow> x = CHR ''.''"
  using canonicalize_fixed[of "CHR ''.''" x] by (auto simp: canonicalize_def)

lemma upper_sep: "upper s = ''://'' \<longleftrightarrow> s = ''://''"
  by (auto simp: upper_def map_eq_Cons_conv canonicalize_colon canonicalize_slash)

lemma upper_consts:
  "upper ''http'' = ''HTTP''" "upper ''gif'' = ''GIF''" "upper ''jp'' = ''JP''"
  "upper ''g'' = ''G''" "upper ''tiff'' = ''TIFF''" "upper ''png'' = ''PNG''"
  "upper ''webp'' = ''WEBP''" "upper ''e'' = ''E''" "upper ''s'' = ''S''"
  "upper ''://'' = ''://''" "upper ''.'' = ''.''"
  by code_simp+

lemma conc_iff: "s \<in> conc A B \<longleftrightarrow> (\<exists>u v. s = u @ v \<and> u \<in> A \<and> v \<in> B)"
  by (auto simp: conc_def)

lemma lang_Seq_conc: "lang (Seq r s) = conc (lang r) (lang s)"
  by (simp add: conc_def)

lemma upper_append: "upper (u @ v) = upper u @ upper v"
  by (simp add: upper_def)

lemma upper_eq_append:
  "upper s = a @ b \<longleftrightarrow> (\<exists>u v. s = u @ v \<and> upper u = a \<and> upper v = b)"
  unfolding upper_def by (auto simp: map_eq_append_conv)

text \<open>Languages that look at the upper-case form only are concatenated on that form.\<close>

lemma conc_upper:
  "conc {s. upper s \<in> X} {s. upper s \<in> Y} = {s. upper s \<in> conc X Y}"
proof (rule set_eqI)
  fix s
  show "s \<in> conc {s. upper s \<in> X} {s. upper s \<in> Y} \<longleftrightarrow> s \<in> {s. upper s \<in> conc X Y}"
  proof
    assume "s \<in> conc {s. upper s \<in> X} {s. upper s \<in> Y}"
    then obtain u v where "s = u @ v" "upper u \<in> X" "upper v \<in> Y"
      by (auto simp: conc_iff)
    then have "upper s = upper u @ upper v \<and> upper u \<in> X \<and> upper v \<in> Y"
      by (simp add: upper_append)
    then show "s \<in> {s. upper s \<in> conc X Y}" unfolding conc_iff by blast
  next
    assume "s \<in> {s. upper s \<in> conc X Y}"
    then obtain a b where ab: "upper s = a @ b" "a \<in> X" "b \<in> Y"
      by (auto simp: conc_iff)
    then obtain u v where "s = u @ v" "upper u = a" "upper v = b"
      unfolding upper_eq_append by blast
    with ab(2,3) show "s \<in> conc {s. upper s \<in> X} {s. upper s \<in> Y}"
      unfolding conc_iff by blast
  qed
qed

lemma lang_LitI: "lang (Atom (LitI c)) = {s. upper s \<in> {upper [c]}}"
  by (auto simp: upper_def map_eq_Cons_conv)

lemma lang_word: "lang (word w) = {s. upper s \<in> {upper w}}"
proof (induction w)
  case Nil
  then show ?case by (simp add: upper_def)
next
  case (Cons c w)
  have "lang (word (c # w)) = conc {s. upper s \<in> {upper [c]}} {s. upper s \<in> {upper w}}"
    using Cons.IH lang_LitI[of c] by (simp add: conc_def)
  also have "\<dots> = {s. upper s \<in> conc {upper [c]} {upper w}}"
    by (rule conc_upper)
  also have "conc {upper [c]} {upper w} = {upper (c # w)}"
    by (auto simp: conc_def upper_def)
  finally show ?case .
qed

lemma lang_Opt: "lang (Opt r) = insert [] (lang r)"
  by (auto simp: Opt_def)

lemma lang_Opt_LitI: "lang (Opt (Atom (LitI c))) = {s. upper s \<in> {[], upper [c]}}"
proof -
  have "insert [] {s. upper s \<in> {upper [c]}} = {s. upper s \<in> {[], upper [c]}}"
    by (auto simp: upper_def)
  then show ?thesis by (simp only: lang_Opt lang_LitI)
qed

lemma conc_insert_left: "conc (insert a A) B = (\<lambda>v. a @ v) ` B \<union> conc A B"
  by (auto simp: conc_def)

lemma conc_empty_left: "conc {} B = {}"
  by (simp add: conc_def)

lemma star_atoms: "star {[c] | c. P c} = {s. \<forall>c \<in> set s. P c}"
proof (rule set_eqI)
  fix s
  show "s \<in> star {[c] | c. P c} \<longleftrightarrow> s \<in> {s. \<forall>c \<in> set s. P c}"
  proof
    assume "s \<in> star {[c] | c. P c}"
    then show "s \<in> {s. \<forall>c \<in> set s. P c}"
      by (induction rule: star.induct) auto
  next
    assume "s \<in> {s. \<forall>c \<in> set s. P c}"
    then have "\<forall>c \<in> set s. P c" by simp
    then show "s \<in> star {[c] | c. P c}"
    proof (induction s)
      case Nil
      show ?case by (rule star_Nil)
    next
      case (Cons x xs)
      then have "[x] \<in> {[c] | c. P c}" "xs \<in> star {[c] | c. P c}" by auto
      from star_App[OF this] show ?case by simp
    qed
  qed
qed

text \<open>\<open>\S+\<close>: the words of one or more characters, none of them white space.\<close>

lemma lang_Plus_NonSpace:
  "lang (Plus (Atom NonSpace)) = {s. s \<noteq> [] \<and> (\<forall>c \<in> set s. \<not> is_space c)}"
proof -
  have "lang (Plus (Atom NonSpace)) =
        conc {[c] | c. \<not> is_space c} {s. \<forall>c \<in> set s. \<not> is_space c}"
    using star_atoms[of "\<lambda>c. \<not> is_space c"] by (simp add: Plus_def conc_def)
  also have "\<dots> = {s. s \<noteq> [] \<and> (\<forall>c \<in> set s. \<not> is_space c)}"
  proof (rule set_eqI)
    fix s
    show "s \<in> conc {[c] | c. \<not> is_space c} {s. \<forall>c \<in> set s. \<not> is_space c}
          \<longleftrightarrow> s \<in> {s. s \<noteq> [] \<and> (\<forall>c \<in> set s. \<not> is_space c)}"
    proof (cases s)
      case Nil
      then show ?thesis by (auto simp: conc_iff)
    next
      case (Cons a list)
      have "s \<in> conc {[c] | c. \<not> is_space c} {s. \<forall>c \<in> set s. \<not> is_space c}
            \<longleftrightarrow> \<not> is_space a \<and> (\<forall>c \<in> set list. \<not> is_space c)"
      proof
        assume "s \<in> conc {[c] | c. \<not> is_space c} {s. \<forall>c \<in> set s. \<not> is_space c}"
        then show "\<not> is_space a \<and> (\<forall>c \<in> set list. \<not> is_space c)"
          unfolding conc_def Cons by auto
      next
        assume a: "\<not> is_space a \<and> (\<forall>c \<in> set list. \<not> is_space c)"
        have "s = [a] @ list" using Cons by simp
        with a show "s \<in> conc {[c] | c. \<not> is_space c} {s. \<forall>c \<in> set s. \<not> is_space c}"
          unfolding conc_iff by blast
      qed
      with Cons show ?thesis by simp
    qed
  qed
  finally show ?thesis .
qed

lemma lang_jpeg:
  "lang (Seq (word ''jp'') (Seq (Opt (Atom (LitI CHR ''e''))) (word ''g'')))
   = {s. upper s \<in> {''JPG'', ''JPEG''}}"
proof -
  have "lang (Seq (word ''jp'') (Seq (Opt (Atom (LitI CHR ''e''))) (word ''g'')))
        = conc {s. upper s \<in> {''JP''}} (conc {s. upper s \<in> {[], ''E''}} {s. upper s \<in> {''G''}})"
    by (simp only: lang_Seq_conc lang_word lang_Opt_LitI upper_consts)
  also have "\<dots> = {s. upper s \<in> conc {''JP''} (conc {[], ''E''} {''G''})}"
    by (simp only: conc_upper)
  also have "conc {''JP''} (conc {[], ''E''} {''G''}) = {''JPG'', ''JPEG''}"
    by (auto simp: conc_insert_left conc_empty_left)
  finally show ?thesis .
qed

lemma lang_image_extensions: "lang image_extensions = {s. is_image_extension s}"
proof -
  have "lang image_extensions =
        {s. upper s \<in> {''GIF''}} \<union> ({s. upper s \<in> {''JPG'', ''JPEG''}} \<union>
          ({s. upper s \<in> {''TIFF''}} \<union> ({s. upper s \<in> {''PNG''}} \<union> {s. upper s \<in> {''WEBP''}})))"
    unfolding image_extensions_def lang.simps(5) lang_jpeg
    by (simp only: lang_word upper_consts)
  also have "\<dots> = {s. is_image_extension s}"
    by (auto simp: is_image_extension_def)
  finally show ?thesis .
qed

lemma lang_scheme:
  "conc (lang (word ''http'')) (lang (Opt (Atom (LitI CHR ''s'')))) = {s. is_http_scheme s}"
proof -
  have "conc (lang (word ''http'')) (lang (Opt (Atom (LitI CHR ''s''))))
        = conc {s. upper s \<in> {''HTTP''}} {s. upper s \<in> {[], ''S''}}"
    by (simp only: lang_word lang_Opt_LitI upper_consts)
  also have "\<dots> = {s. upper s \<in> conc {''HTTP''} {[], ''S''}}"
    by (simp only: conc_upper)
  also have "conc {''HTTP''} {[], ''S''} = {''HTTP'', ''HTTPS''}"
    by (simp add: conc_insert_left conc_empty_left)
  finally show ?thesis by (simp add: is_http_scheme_def)
qed

lemma conc_assoc: "conc A (conc B C) = conc (conc A B) C"
proof (rule set_eqI)
  fix s
  show "s \<in> conc A (conc B C) \<longleftrightarrow> s \<in> conc (conc A B) C"
  proof
    assume "s \<in> conc A (conc B C)"
    then obtain a b c where "s = a @ b @ c" "a \<in> A" "b \<in> B" "c \<in> C"
      by (auto simp: conc_iff)
    then have "s = (a @ b) @ c \<and> a @ b \<in> conc A B \<and> c \<in> C"
      by (auto simp: conc_iff)
    then show "s \<in> conc (conc A B) C" unfolding conc_iff[of s] by blast
  next
    assume "s \<in> conc (conc A B) C"
    then obtain a b c where "s = (a @ b) @ c" "a \<in> A" "b \<in> B" "c \<in> C"
      by (auto simp: conc_iff)
    then have "s = a @ (b @ c) \<and> a \<in> A \<and> b @ c \<in> conc B C"
      by (auto simp: conc_iff)
    then show "s \<in> conc A (conc B C)" unfolding conc_iff[of s] by blast
  qed
qed

lemma conc_five:
  "s \<in> conc A (conc {b} (conc C (conc {d} E)))
   \<longleftrightarrow> (\<exists>a c e. s = a @ b @ c @ d @ e \<and> a \<in> A \<and> c \<in> C \<and> e \<in> E)"
proof
  assume "s \<in> conc A (conc {b} (conc C (conc {d} E)))"
  then obtain a r1 where 1: "s = a @ r1" "a \<in> A" "r1 \<in> conc {b} (conc C (conc {d} E))"
    unfolding conc_iff[of s] by blast
  from 1(3) obtain r2 where 2: "r1 = b @ r2" "r2 \<in> conc C (conc {d} E)"
    unfolding conc_iff[of r1] by blast
  from 2(2) obtain c r3 where 3: "r2 = c @ r3" "c \<in> C" "r3 \<in> conc {d} E"
    unfolding conc_iff[of r2] by blast
  from 3(3) obtain e where 4: "r3 = d @ e" "e \<in> E"
    unfolding conc_iff[of r3] by blast
  from 1 2 3 4 have "s = a @ b @ c @ d @ e \<and> a \<in> A \<and> c \<in> C \<and> e \<in> E" by simp
  then show "\<exists>a c e. s = a @ b @ c @ d @ e \<and> a \<in> A \<and> c \<in> C \<and> e \<in> E" by blast
next
  assume "\<exists>a c e. s = a @ b @ c @ d @ e \<and> a \<in> A \<and> c \<in> C \<and> e \<in> E"
  then obtain a c e where h: "s = a @ b @ c @ d @ e" "a \<in> A" "c \<in> C" "e \<in> E" by blast
  have "d @ e \<in> conc {d} E" using h(4) unfolding conc_iff by blast
  then have "c @ d @ e \<in> conc C (conc {d} E)" using h(3) unfolding conc_iff[of "c @ d @ e"] by blast
  then have "b @ c @ d @ e \<in> conc {b} (conc C (conc {d} E))"
    unfolding conc_iff[of "b @ c @ d @ e"] by blast
  then show "s \<in> conc A (conc {b} (conc C (conc {d} E)))"
    using h(1,2) unfolding conc_iff[of s] by blast
qed

lemma lang_image_pattern: "s \<in> lang image_pattern \<longleftrightarrow> image_url s"
proof -
  have sep: "lang (word ''://'') = {''://''}"
    using upper_sep by (auto simp only: lang_word upper_consts)
  have cd: "canonicalize CHR ''.'' = CHR ''.''" by code_simp
  have dot: "lang (Atom (LitI CHR ''.'')) = {''.''}"
    unfolding lang.simps atom_ok.simps cd canonicalize_dot by auto
  have "lang image_pattern =
        conc (conc (lang (word ''http'')) (lang (Opt (Atom (LitI CHR ''s'')))))
          (conc (lang (word ''://''))
            (conc (lang (Plus (Atom NonSpace)))
              (conc (lang (Atom (LitI CHR ''.''))) (lang image_extensions))))"
    unfolding image_pattern_def by (simp only: lang_Seq_conc conc_assoc)
  also have "\<dots> = conc {s. is_http_scheme s}
          (conc {''://''}
            (conc {s. s \<noteq> [] \<and> (\<forall>c \<in> set s. \<not> is_space c)}
              (conc {''.''} {s. is_image_extension s})))"
    by (simp only: lang_scheme sep dot lang_Plus_NonSpace lang_image_extensions)
  finally have "lang image_pattern = conc {s. is_http_scheme s}
          (conc {''://''}
            (conc {s. s \<noteq> [] \<and> (\<forall>c \<in> set s. \<not> is_space c)}
              (conc {''.''} {s. is_image_extension s})))" .
  then have "s \<in> lang image_pattern \<longleftrightarrow> s \<in> conc {s. is_http_scheme s}
          (conc {''://''}
            (conc {s. s \<noteq> [] \<and> (\<forall>c \<in> set s. \<not> is_space c)}
              (conc {''.''} {s. is_image_extension s})))" by (rule arg_cong)
  also have "\<dots> \<longleftrightarrow> image_url s"
    by (simp only: conc_five image_url_def mem_Collect_eq conj_assoc)
  finally show ?thesis .
qed

text \<open>The pattern matches the whole of a text exactly when the text is such a URL.\<close>

lemma full_match_image_pattern: "full_match image_pattern s \<longleftrightarrow> image_url s"
  by (simp add: full_match_lang lang_image_pattern)

text \<open>
  The pattern is not anchored at its start: a search with it, as \<open>test\<close> does, also finds
  a match in a text that has words in front of such a URL. That match is not the whole
  text.
\<close>

lemma image_pattern_search_after_words:
  "regex_test image_pattern ''see http://a/b.png''
   \<and> \<not> matches_pasted_text image_pattern ''see http://a/b.png''
   \<and> \<not> image_url ''see http://a/b.png''"
proof -
  have "regex_test image_pattern ''see http://a/b.png''" by code_simp
  moreover have n: "\<not> full_match image_pattern ''see http://a/b.png''" by code_simp
  then have "\<not> image_url ''see http://a/b.png''" using full_match_image_pattern by blast
  moreover from n have "\<not> matches_pasted_text image_pattern ''see http://a/b.png''"
    by (simp only: matches_pasted_text_def regex_exec_whole) simp
  ultimately show ?thesis by blast
qed

text \<open>
  C7: the pattern that \<open>pasteConfig\<close> registers matches a pasted text exactly when the text
  is an http or https URL (the scheme and the extension in any case) that has, after
  \<open>://\<close>, one or more characters without white space, a dot and one of the extensions gif,
  jpg, jpeg, tiff, png, webp. A search with the pattern succeeds exactly when an end of
  the text is such a URL. \<open>pasteConfig\<close> also registers the tag \<open>img\<close> with its attribute
  \<open>src\<close>, and the mime types \<open>image/*\<close>.
\<close>

theorem pasteConfig_pattern_matches_image_urls:
  "patterns pasteConfig = [(''image'', image_pattern)]
   \<and> (matches_pasted_text image_pattern text \<longleftrightarrow> image_url text)
   \<and> (regex_test image_pattern text \<longleftrightarrow> (\<exists>u v. text = u @ v \<and> image_url v))
   \<and> tags pasteConfig = [(''img'', [''src''])]
   \<and> mimeTypes pasteConfig = [''image/*'']"
  by (simp add: pasteConfig_def matches_pasted_text_def regex_test_iff regex_exec_whole
      full_match_image_pattern)

theorem pasteConfig_pattern_matches_image_urls_witness:
  "matches_pasted_text image_pattern ''HTTPS://a.b/c.d.JpEg''
   \<and> image_url ''HTTPS://a.b/c.d.JpEg''
   \<and> \<not> matches_pasted_text image_pattern ''http://a.b/c.bmp''
   \<and> \<not> image_url ''http://a.b/c.bmp''
   \<and> \<not> image_url ''http://.png''"
proof -
  have e: "regex_exec image_pattern ''HTTPS://a.b/c.d.JpEg'' = Some ''HTTPS://a.b/c.d.JpEg''"
    by code_simp
  have n: "regex_exec image_pattern ''http://a.b/c.bmp'' \<noteq> Some ''http://a.b/c.bmp''"
    "regex_exec image_pattern ''http://.png'' \<noteq> Some ''http://.png''"
    by code_simp+
  from e n pasteConfig_pattern_matches_image_urls[of "''HTTPS://a.b/c.d.JpEg''"]
    pasteConfig_pattern_matches_image_urls[of "''http://a.b/c.bmp''"]
    pasteConfig_pattern_matches_image_urls[of "''http://.png''"]
  show ?thesis unfolding matches_pasted_text_def by blast
qed

section \<open>The data record and its setter\<close>

lemma override_None [simp]: "override None x = x"
  by (cases x) (simp_all add: override_def)

lemma override_Some [simp]: "override x (Some v) = Some v"
  by (simp add: override_def)

lemma override_keep [simp]: "override x None = x"
  by (simp add: override_def)

lemma assign_empty_data [simp]: "assign empty_data d = d"
  by (simp add: assign_def empty_data_def)

lemma decodeHTMLEntities_Nil [simp]: "decodeHTMLEntities [] = []"
  by (simp add: decodeHTMLEntities_def)

text \<open>The setter stores the old record overwritten by the new one, its URL decoded.\<close>

lemma data_set_data: "data (set_data d st) = assign (data st) (decode_url d)"
  by (simp add: set_data_def Let_def)

lemma set_data_url_only:
  "data (set_data (empty_data\<lparr>url := Some u\<rparr>) st) = (data st)\<lparr>url := Some (decodeHTMLEntities u)\<rparr>"
  by (simp add: data_set_data decode_url_def assign_def empty_data_def)

lemma set_data_url_caption:
  "data (set_data (empty_data\<lparr>url := Some u, caption := Some c\<rparr>) st)
   = (data st)\<lparr>url := Some (decodeHTMLEntities u), caption := Some c\<rparr>"
  by (simp add: data_set_data decode_url_def assign_def empty_data_def)

text \<open>
  C5, as stated: the stored URL is the given one when that is truthy. The setter decodes
  it first.
\<close>

theorem constructor_url_is_decoded:
  "url (data (constructor (empty_data\<lparr>url := Some ''a&amp;b''\<rparr>) example_api False))
   \<noteq> Some ''a&amp;b''"
  by (simp add: constructor_def data_set_data decode_url_def assign_def empty_data_def
      decodeHTMLEntities_def)

text \<open>
  C5, amended: the constructor stores the decoded form of the given URL, or the empty
  string when there is none; the given caption, or the empty string; and each of the
  three flags as given, or \<open>false\<close> when it is undefined.
\<close>

theorem constructor_merges_defaults:
  "data (constructor d api ro) =
     \<lparr> url = Some (case url d of None \<Rightarrow> [] | Some u \<Rightarrow> decodeHTMLEntities u),
       caption = Some (case caption d of None \<Rightarrow> [] | Some c \<Rightarrow> c),
       withBorder = Some (case withBorder d of None \<Rightarrow> False | Some b \<Rightarrow> b),
       withBackground = Some (case withBackground d of None \<Rightarrow> False | Some b \<Rightarrow> b),
       stretched = Some (case stretched d of None \<Rightarrow> False | Some b \<Rightarrow> b) \<rparr>"
  by (cases "url d"; cases "caption d"; cases "withBorder d"; cases "withBackground d";
      cases "stretched d")
     (simp_all add: constructor_def data_set_data decode_url_def assign_def empty_data_def)

theorem constructor_merges_defaults_witness:
  "data (constructor (empty_data\<lparr>url := Some ''a&amp;b'', stretched := Some True\<rparr>) example_api False)
   = \<lparr> url = Some ''a&b'', caption = Some [], withBorder = Some False,
       withBackground = Some False, stretched = Some True \<rparr>"
  using constructor_merges_defaults
    [of "empty_data\<lparr>url := Some ''a&amp;b'', stretched := Some True\<rparr>" example_api False]
  by (simp add: empty_data_def decodeHTMLEntities_def)

section \<open>Paste events\<close>

text \<open>
  C3: a pasted \<open>img\<close> tag hands to the setter a record with the decoded \<open>src\<close> as its URL,
  a pasted pattern one with the decoded text; a pasted file is read by \<open>onDropHandler\<close>
  and the record of its promise is handed to the setter when the promise resolves; an
  event of another type, and a tag that is not an image, leave the tool as it is. The
  setter stores the old record overwritten by the one it is given, after decoding its
  URL once more: so the stored URL is the twice decoded \<open>src\<close> or text, and for a file the
  decoded data URL with the name of the file as the caption.
\<close>

theorem onPaste_assigns_through_setter:
  "(tagName img = ''img'' \<longrightarrow>
      onPaste (HTMLPasteEvent img) st
      = (set_data (empty_data\<lparr>url := Some (decodeHTMLEntities (src img))\<rparr>) st, None)
      \<and> data (fst (onPaste (HTMLPasteEvent img) st))
          = (data st)\<lparr>url := Some (decodeHTMLEntities (decodeHTMLEntities (src img)))\<rparr>)
   \<and> (tagName img \<noteq> ''img'' \<longrightarrow> onPaste (HTMLPasteEvent img) st = (st, None))
   \<and> onPaste (PatternPasteEvent text) st
       = (set_data (empty_data\<lparr>url := Some (decodeHTMLEntities text)\<rparr>) st, None)
   \<and> data (fst (onPaste (PatternPasteEvent text) st))
       = (data st)\<lparr>url := Some (decodeHTMLEntities (decodeHTMLEntities text))\<rparr>
   \<and> onPaste (FilePasteEvent file) st = (st, onDropHandler file)
   \<and> (dataURL file = Some r \<longrightarrow>
         onDropHandler file = Some (empty_data\<lparr>url := Some r, caption := Some (file_name file)\<rparr>)
         \<and> promise_then (onDropHandler file) st'
             = set_data (empty_data\<lparr>url := Some r, caption := Some (file_name file)\<rparr>) st'
         \<and> data (promise_then (onDropHandler file) st')
             = (data st')\<lparr>url := Some (decodeHTMLEntities r), caption := Some (file_name file)\<rparr>)
   \<and> (dataURL file = None \<longrightarrow> promise_then (onDropHandler file) st' = st')
   \<and> onPaste OtherPasteEvent st = (st, None)
   \<and> data (set_data d st) = assign (data st) (decode_url d)"
proof -
  have "data (set_data d st) = assign (data st) (decode_url d)"
    by (rule data_set_data)
  then show ?thesis
    by (simp add: onDropHandler_def set_data_url_only set_data_url_caption)
qed

theorem onPaste_assigns_through_setter_witness:
  "data (constructor empty_data example_api False)
     = \<lparr> url = Some [], caption = Some [], withBorder = Some False,
         withBackground = Some False, stretched = Some False \<rparr>
   \<and> data (fst (onPaste (HTMLPasteEvent (Element ''img'' [] ''http://x/a.png?b=1&amp;c=2'' [] []))
                 (constructor empty_data example_api False)))
     = \<lparr> url = Some ''http://x/a.png?b=1&c=2'', caption = Some [], withBorder = Some False,
         withBackground = Some False, stretched = Some False \<rparr>
   \<and> data (fst (onPaste (PatternPasteEvent ''&amp;amp;lt;'')
                 (constructor empty_data example_api False)))
     = \<lparr> url = Some ''<'', caption = Some [], withBorder = Some False,
         withBackground = Some False, stretched = Some False \<rparr>
   \<and> data (promise_then (onDropHandler example_file) (constructor empty_data example_api False))
     = \<lparr> url = Some ''data:image/png;base64,AAAA'', caption = Some ''a.png'',
         withBorder = Some False, withBackground = Some False, stretched = Some False \<rparr>
   \<and> onPaste (HTMLPasteEvent (Element ''p'' [] [] [] [])) (constructor empty_data example_api False)
       = (constructor empty_data example_api False, None)
   \<and> promise_then (onDropHandler \<lparr>file_name = ''a.png'', dataURL = None\<rparr>)
         (constructor empty_data example_api False)
       = constructor empty_data example_api False"
proof -
  let ?st = "constructor empty_data example_api False"
  have c: "data ?st = \<lparr> url = Some [], caption = Some [], withBorder = Some False,
                        withBackground = Some False, stretched = Some False \<rparr>"
    by (simp add: constructor_def data_set_data decode_url_def assign_def empty_data_def)
  have d: "decodeHTMLEntities (decodeHTMLEntities ''http://x/a.png?b=1&amp;c=2'')
           = ''http://x/a.png?b=1&c=2''"
    "decodeHTMLEntities (decodeHTMLEntities ''&amp;amp;lt;'') = ''<''"
    "decodeHTMLEntities ''data:image/png;base64,AAAA'' = ''data:image/png;base64,AAAA''"
    by (simp_all add: decodeHTMLEntities_def)
  note t1 = onPaste_assigns_through_setter
      [of "Element ''img'' [] ''http://x/a.png?b=1&amp;c=2'' [] []" ?st "''&amp;amp;lt;''"
          example_file "''data:image/png;base64,AAAA''" ?st empty_data]
  note t2 = onPaste_assigns_through_setter
      [of "Element ''p'' [] [] [] []" ?st "[]" "\<lparr>file_name = ''a.png'', dataURL = None\<rparr>" "[]"
          ?st empty_data]
  have 1: "data (fst (onPaste (HTMLPasteEvent (Element ''img'' [] ''http://x/a.png?b=1&amp;c=2'' [] []))
                 ?st))
     = \<lparr> url = Some ''http://x/a.png?b=1&c=2'', caption = Some [], withBorder = Some False,
         withBackground = Some False, stretched = Some False \<rparr>"
    using t1 by (simp add: c d)
  have 2: "data (fst (onPaste (PatternPasteEvent ''&amp;amp;lt;'') ?st))
     = \<lparr> url = Some ''<'', caption = Some [], withBorder = Some False,
         withBackground = Some False, stretched = Some False \<rparr>"
    using t1 by (simp add: c d)
  have f: "dataURL example_file = Some ''data:image/png;base64,AAAA''"
    "file_name example_file = ''a.png''"
    by (simp_all add: example_file_def)
  from t1 f(1) have "data (promise_then (onDropHandler example_file) ?st)
     = (data ?st)\<lparr>url := Some (decodeHTMLEntities ''data:image/png;base64,AAAA''),
                   caption := Some (file_name example_file)\<rparr>"
    by blast
  then have 3: "data (promise_then (onDropHandler example_file) ?st)
     = \<lparr> url = Some ''data:image/png;base64,AAAA'', caption = Some ''a.png'',
         withBorder = Some False, withBackground = Some False, stretched = Some False \<rparr>"
    by (simp only: c d f) simp
  have 4: "onPaste (HTMLPasteEvent (Element ''p'' [] [] [] [])) ?st = (?st, None)"
    using t2 by simp
  have 5: "promise_then (onDropHandler \<lparr>file_name = ''a.png'', dataURL = None\<rparr>) ?st = ?st"
    using t2 by simp
  from c 1 2 3 4 5 show ?thesis by (intro conjI)
qed

text \<open>
  C4, as stated: every paste source changes the URL only. A pasted file also sets the
  caption, to the name of the file.
\<close>

theorem file_paste_sets_caption:
  "caption (data (promise_then
       (snd (onPaste (FilePasteEvent example_file)
              (constructor (empty_data\<lparr>caption := Some ''old''\<rparr>) example_api False)))
       (fst (onPaste (FilePasteEvent example_file)
              (constructor (empty_data\<lparr>caption := Some ''old''\<rparr>) example_api False)))))
   \<noteq> caption (data (constructor (empty_data\<lparr>caption := Some ''old''\<rparr>) example_api False))"
  by (simp add: onDropHandler_def example_file_def set_data_url_caption
      constructor_def data_set_data decode_url_def assign_def empty_data_def)

text \<open>
  C4, amended: a pasted \<open>img\<close> tag and a pasted pattern text change the URL of the record
  and nothing else in it; a pasted file, when its promise resolves, sets the URL to the
  decoded data URL and the caption to the name of the file, and leaves the three flags.
  The call of \<open>onPaste\<close> for a file changes nothing by itself.
\<close>

theorem paste_changes_url_and_file_caption:
  "(tagName img = ''img'' \<longrightarrow>
      data (fst (onPaste (HTMLPasteEvent img) st))
      = (data st)\<lparr>url := Some (decodeHTMLEntities (decodeHTMLEntities (src img)))\<rparr>)
   \<and> data (fst (onPaste (PatternPasteEvent text) st))
       = (data st)\<lparr>url := Some (decodeHTMLEntities (decodeHTMLEntities text))\<rparr>
   \<and> fst (onPaste (FilePasteEvent file) st) = st
   \<and> (dataURL file = Some r \<longrightarrow>
         data (promise_then (snd (onPaste (FilePasteEvent file) st)) st')
         = (data st')\<lparr>url := Some (decodeHTMLEntities r), caption := Some (file_name file)\<rparr>)"
  by (simp add: set_data_url_only set_data_url_caption onDropHandler_def)

theorem paste_changes_url_and_file_caption_witness:
  "data (fst (onPaste (HTMLPasteEvent (Element ''img'' [] ''a&amp;amp;b'' [] []))
            (constructor (empty_data\<lparr>caption := Some ''old''\<rparr>) example_api False)))
     = \<lparr> url = Some ''a&b'', caption = Some ''old'', withBorder = Some False,
         withBackground = Some False, stretched = Some False \<rparr>
   \<and> data (promise_then
              (snd (onPaste (FilePasteEvent example_file)
                     (constructor (empty_data\<lparr>caption := Some ''old''\<rparr>) example_api False)))
              (constructor (empty_data\<lparr>caption := Some ''old''\<rparr>) example_api False))
     = \<lparr> url = Some ''data:image/png;base64,AAAA'', caption = Some ''a.png'',
         withBorder = Some False, withBackground = Some False, stretched = Some False \<rparr>"
proof -
  have c: "data (constructor (empty_data\<lparr>caption := Some ''old''\<rparr>) example_api False)
           = \<lparr> url = Some [], caption = Some ''old'', withBorder = Some False,
               withBackground = Some False, stretched = Some False \<rparr>"
    by (simp add: constructor_def data_set_data decode_url_def assign_def empty_data_def)
  have d: "decodeHTMLEntities (decodeHTMLEntities ''a&amp;amp;b'') = ''a&b''"
    "decodeHTMLEntities ''data:image/png;base64,AAAA'' = ''data:image/png;base64,AAAA''"
    by (simp_all add: decodeHTMLEntities_def)
  show ?thesis
    using paste_changes_url_and_file_caption
      [of "Element ''img'' [] ''a&amp;amp;b'' [] []"
          "constructor (empty_data\<lparr>caption := Some ''old''\<rparr>) example_api False"]
      paste_changes_url_and_file_caption
      [of _ "constructor (empty_data\<lparr>caption := Some ''old''\<rparr>) example_api False" _
          example_file "''data:image/png;base64,AAAA''"
          "constructor (empty_data\<lparr>caption := Some ''old''\<rparr>) example_api False"]
    by (simp add: c d example_file_def)
qed

section \<open>Saving\<close>

lemma find_append:
  "List.find P (xs @ ys) = (case List.find P xs of None \<Rightarrow> List.find P ys | Some x \<Rightarrow> Some x)"
  by (induction xs) auto

text \<open>\<open>find_first\<close> gives the first match in tree order.\<close>

lemma find_first_find: "find_first P es = List.find P (descendants es)"
  by (induction P es rule: find_first.induct) (auto simp: find_append split: option.splits)

lemma querySelector_find: "querySelector el P = List.find P (descendants (children el))"
  by (simp add: querySelector_def find_first_find)

lemma save_without_image:
  assumes "css_identifier (input (CSS st))"
    and "List.find (tag_selector ''img'') (descendants (children blockContent)) = None"
  shows "save blockContent st = Some (data st, st)"
  using assms by (simp add: save_def querySelector_find)

lemma save_with_image:
  assumes "css_identifier (input (CSS st))"
    and "List.find (tag_selector ''img'') (descendants (children blockContent)) = Some img"
  shows "save blockContent st =
     Some ((data st)\<lparr>url := Some (if src img = [] then [] else decodeHTMLEntities (src img)),
                     caption := Some (case List.find (class_selector (input (CSS st)))
                                             (descendants (children blockContent)) of
                                        None \<Rightarrow> []
                                      | Some c \<Rightarrow> innerHTML c)\<rparr>,
           st\<lparr>data := (data st)\<lparr>url := Some (if src img = [] then [] else decodeHTMLEntities (src img)),
                     caption := Some (case List.find (class_selector (input (CSS st)))
                                             (descendants (children blockContent)) of
                                        None \<Rightarrow> []
                                      | Some c \<Rightarrow> innerHTML c)\<rparr>\<rparr>)"
  using assms
  by (auto simp: save_def querySelector_find Let_def assign_def empty_data_def
      split: option.splits)

lemma example_save:
  "css_identifier ''cdx-input''"
  "List.find (tag_selector ''img'') (descendants (children example_block))
   = Some (Element ''img'' [] ''http://x/a.png?b=1&amp;c=2'' [] [])"
  "List.find (class_selector ''cdx-input'') (descendants (children example_block))
   = Some (Element ''div'' [''cdx-input'', ''cdx-simple-image__caption''] [] ''A <b>cat</b>'' [])"
  "decodeHTMLEntities ''http://x/a.png?b=1&amp;c=2'' = ''http://x/a.png?b=1&c=2''"
  by (simp_all add: example_block_def tag_selector_def class_selector_def name_start_def
      name_char_def decodeHTMLEntities_def)

lemma example_input: "input (CSS (constructor d example_api ro)) = ''cdx-input''"
  by (simp add: constructor_def set_data_def Let_def example_api_def)

text \<open>
  C1: when the block content has an \<open>img\<close> among its descendants, \<open>save\<close> returns a record
  whose URL is the decoded \<open>src\<close> of the first one (the empty string for an empty \<open>src\<close>)
  and whose caption is the \<open>innerHTML\<close> of the first descendant with the input class (the
  empty string when there is none); when it has no \<open>img\<close>, \<open>save\<close> returns the stored
  record and changes nothing.
\<close>

theorem save_reads_image_and_caption:
  assumes "css_identifier (input (CSS st))"
  shows "(List.find (tag_selector ''img'') (descendants (children blockContent)) = Some img \<longrightarrow>
            (\<exists>d st'. save blockContent st = Some (d, st')
               \<and> url d = Some (if src img = [] then [] else decodeHTMLEntities (src img))
               \<and> caption d = Some (case List.find (class_selector (input (CSS st)))
                                           (descendants (children blockContent)) of
                                      None \<Rightarrow> []
                                    | Some c \<Rightarrow> innerHTML c)
               \<and> withBorder d = withBorder (data st)
               \<and> withBackground d = withBackground (data st)
               \<and> stretched d = stretched (data st)))
       \<and> ((\<forall>e \<in> set (descendants (children blockContent)). tagName e \<noteq> ''img'') \<longrightarrow>
            save blockContent st = Some (data st, st))"
proof (intro conjI impI)
  assume "List.find (tag_selector ''img'') (descendants (children blockContent)) = Some img"
  from save_with_image[OF assms this]
  show "\<exists>d st'. save blockContent st = Some (d, st')
          \<and> url d = Some (if src img = [] then [] else decodeHTMLEntities (src img))
          \<and> caption d = Some (case List.find (class_selector (input (CSS st)))
                                      (descendants (children blockContent)) of
                                 None \<Rightarrow> []
                               | Some c \<Rightarrow> innerHTML c)
          \<and> withBorder d = withBorder (data st)
          \<and> withBackground d = withBackground (data st)
          \<and> stretched d = stretched (data st)"
    by simp
next
  assume "\<forall>e \<in> set (descendants (children blockContent)). tagName e \<noteq> ''img''"
  then have "List.find (tag_selector ''img'') (descendants (children blockContent)) = None"
    by (simp add: find_None_iff tag_selector_def)
  with assms show "save blockContent st = Some (data st, st)"
    by (rule save_without_image)
qed

theorem save_reads_image_and_caption_witness:
  "(\<exists>d st'. save example_block (constructor empty_data example_api False) = Some (d, st')
      \<and> url d = Some ''http://x/a.png?b=1&c=2'' \<and> caption d = Some ''A <b>cat</b>'')
   \<and> save (Element ''div'' [] [] [] []) (constructor empty_data example_api False)
       = Some (data (constructor empty_data example_api False),
               constructor empty_data example_api False)"
proof -
  have ci: "css_identifier (input (CSS (constructor empty_data example_api False)))"
    unfolding example_input by (rule example_save(1))
  show ?thesis
    using save_reads_image_and_caption
      [OF ci, of example_block "Element ''img'' [] ''http://x/a.png?b=1&amp;c=2'' [] []"]
      save_reads_image_and_caption [OF ci, of "Element ''div'' [] [] [] []"]
    by (simp add: example_input example_save(2-4)) blast
qed

text \<open>
  C10: when the block content has an \<open>img\<close> among its descendants, \<open>save\<close> overwrites the
  URL and the caption of the stored record with what it reads from the first \<open>img\<close> and
  from the first descendant with the input class; the returned record is the stored one
  afterwards, so that the getter returns it; nothing else of the tool changes.
\<close>

theorem save_overwrites_stored_data:
  assumes "css_identifier (input (CSS st))"
    and "\<exists>e \<in> set (descendants (children blockContent)). tagName e = ''img''"
  shows "\<exists>img d st'.
           List.find (tag_selector ''img'') (descendants (children blockContent)) = Some img
           \<and> save blockContent st = Some (d, st')
           \<and> d = (data st)\<lparr>url := Some (if src img = [] then [] else decodeHTMLEntities (src img)),
                            caption := Some (case List.find (class_selector (input (CSS st)))
                                                    (descendants (children blockContent)) of
                                               None \<Rightarrow> []
                                             | Some c \<Rightarrow> innerHTML c)\<rparr>
           \<and> st' = st\<lparr>data := d\<rparr>
           \<and> data st' = d
           \<and> get_data st' = d"
proof -
  from assms(2) obtain img
    where f: "List.find (tag_selector ''img'') (descendants (children blockContent)) = Some img"
    by (cases "List.find (tag_selector ''img'') (descendants (children blockContent))")
       (auto simp: find_None_iff tag_selector_def)
  from save_with_image[OF assms(1) this] f show ?thesis
    by (simp add: get_data_def)
qed

theorem save_overwrites_stored_data_witness:
  "get_data (constructor empty_data example_api False)
     = \<lparr> url = Some [], caption = Some [], withBorder = Some False,
         withBackground = Some False, stretched = Some False \<rparr>
   \<and> (\<exists>d st'. save example_block (constructor empty_data example_api False) = Some (d, st')
        \<and> d = \<lparr> url = Some ''http://x/a.png?b=1&c=2'', caption = Some ''A <b>cat</b>'',
                 withBorder = Some False, withBackground = Some False, stretched = Some False \<rparr>
        \<and> get_data st' = d
        \<and> get_data st' \<noteq> get_data (constructor empty_data example_api False))"
proof -
  let ?st = "constructor empty_data example_api False"
  have c: "data ?st = \<lparr> url = Some [], caption = Some [], withBorder = Some False,
                        withBackground = Some False, stretched = Some False \<rparr>"
    by (simp add: constructor_def data_set_data decode_url_def assign_def empty_data_def)
  have e: "\<exists>e \<in> set (descendants (children example_block)). tagName e = ''img''"
    by (simp add: example_block_def)
  have ci: "css_identifier (input (CSS ?st))"
    unfolding example_input by (rule example_save(1))
  from save_overwrites_stored_data[OF ci e] show ?thesis
    by (auto simp: example_input example_save(2-4) c get_data_def)
qed

section \<open>Tunes and rendering\<close>

lemma kebab_names:
  "kebab ''withBorder'' = ''with-border''"
  "kebab ''stretched'' = ''stretched''"
  "kebab ''withBackground'' = ''with-background''"
  by code_simp+

lemma modifier_suffix_ok:
  "list_all (\<lambda>c. \<not> ascii_whitespace c) ''--with-border''"
  "list_all (\<lambda>c. \<not> ascii_whitespace c) ''--stretched''"
  "list_all (\<lambda>c. \<not> ascii_whitespace c) ''--with-background''"
  by code_simp+

lemma modifier_class_names:
  "modifier_class css ''withBorder'' = imageHolderClass css @ ''--with-border''"
  "modifier_class css ''stretched'' = imageHolderClass css @ ''--stretched''"
  "modifier_class css ''withBackground'' = imageHolderClass css @ ''--with-background''"
  unfolding modifier_class_def kebab_names by simp_all

lemma valid_modifier_class:
  assumes "valid_token (imageHolderClass css)"
  shows "valid_token (modifier_class css ''withBorder'')"
    "valid_token (modifier_class css ''stretched'')"
    "valid_token (modifier_class css ''withBackground'')"
  unfolding modifier_class_names
  using assms modifier_suffix_ok by (simp_all add: valid_token_def)

lemma modifier_class_distinct:
  "modifier_class css ''withBorder'' \<noteq> modifier_class css ''stretched''"
  "modifier_class css ''withBorder'' \<noteq> modifier_class css ''withBackground''"
  "modifier_class css ''stretched'' \<noteq> modifier_class css ''withBackground''"
  unfolding modifier_class_names by simp_all

lemma classList_toggle_valid:
  "valid_token t \<Longrightarrow>
   classList_toggle t b cl = Some (if b then add_token t cl else removeAll t cl)"
  by (simp add: classList_toggle_def classList_add_def classList_remove_def)

lemma toggle_modifier_holder:
  assumes "imageHolder (nodes st) = Some h" "doc st h = Some n"
    and "valid_token (modifier_class (CSS st) (name tune))"
  shows "toggle_modifier tune st
         = Some (st\<lparr>doc := (doc st)(h \<mapsto> n\<lparr>classList := set_modifier st (name tune) (classList n)\<rparr>)\<rparr>)"
  using assms
  by (simp add: toggle_modifier_def update_classList_def classList_toggle_valid set_modifier_def)

lemma set_modifier_cong:
  "data st' = data st \<Longrightarrow> CSS st' = CSS st \<Longrightarrow> set_modifier st' = set_modifier st"
  by (intro ext) (simp add: set_modifier_def)

lemma acceptTuneView_holder:
  assumes h: "imageHolder (nodes st) = Some h" "doc st h = Some n"
    and v: "valid_token (imageHolderClass (CSS st))"
  shows "acceptTuneView st
         = Some (st\<lparr>doc := (doc st)(h \<mapsto> n\<lparr>classList := tune_classes st (classList n)\<rparr>),
                    stretchBlock_calls :=
                      stretchBlock_calls st @ [(blockIndex st, truthy_flag (stretched (data st)))]\<rparr>)"
proof -
  let ?t1 = "\<lparr>name = ''withBorder'', label = ''Add Border''\<rparr>"
  let ?t2 = "\<lparr>name = ''stretched'', label = ''Stretch Image''\<rparr>"
  let ?t3 = "\<lparr>name = ''withBackground'', label = ''Add Background''\<rparr>"
  let ?c1 = "set_modifier st ''withBorder'' (classList n)"
  let ?c2 = "set_modifier st ''stretched'' ?c1"
  let ?c3 = "set_modifier st ''withBackground'' ?c2"
  let ?s1 = "st\<lparr>doc := (doc st)(h \<mapsto> n\<lparr>classList := ?c1\<rparr>)\<rparr>"
  let ?s2 = "st\<lparr>doc := (doc st)(h \<mapsto> n\<lparr>classList := ?c2\<rparr>),
                 stretchBlock_calls :=
                   stretchBlock_calls st @ [(blockIndex st, truthy_flag (stretched (data st)))]\<rparr>"
  let ?s3 = "st\<lparr>doc := (doc st)(h \<mapsto> n\<lparr>classList := ?c3\<rparr>),
                 stretchBlock_calls :=
                   stretchBlock_calls st @ [(blockIndex st, truthy_flag (stretched (data st)))]\<rparr>"
  note vm = valid_modifier_class[OF v]
  have a1: "accept_tune ?t1 st = Some ?s1"
    using toggle_modifier_holder[OF h, of ?t1] vm(1) by (simp add: accept_tune_def)
  have sm1: "set_modifier ?s1 = set_modifier st" by (rule set_modifier_cong) simp_all
  have "toggle_modifier ?t2 ?s1
        = Some (?s1\<lparr>doc := (doc ?s1)(h \<mapsto> (n\<lparr>classList := ?c1\<rparr>)
                   \<lparr>classList := set_modifier ?s1 (name ?t2) (classList (n\<lparr>classList := ?c1\<rparr>))\<rparr>)\<rparr>)"
    using vm(2) h(1) by (intro toggle_modifier_holder) simp_all
  then have a2: "accept_tune ?t2 ?s1 = Some ?s2"
    by (simp add: accept_tune_def sm1)
  have sm2: "set_modifier ?s2 = set_modifier st" by (rule set_modifier_cong) simp_all
  have "toggle_modifier ?t3 ?s2
        = Some (?s2\<lparr>doc := (doc ?s2)(h \<mapsto> (n\<lparr>classList := ?c2\<rparr>)
                   \<lparr>classList := set_modifier ?s2 (name ?t3) (classList (n\<lparr>classList := ?c2\<rparr>))\<rparr>)\<rparr>)"
    using vm(3) h(1) by (intro toggle_modifier_holder) simp_all
  then have a3: "accept_tune ?t3 ?s2 = Some ?s3"
    by (simp add: accept_tune_def sm2)
  show ?thesis
    by (simp add: acceptTuneView_def tunes_def a1 a2 a3 tune_classes_def)
qed

lemma acceptTuneView_no_holder:
  assumes "imageHolder (nodes st) = None"
  shows "acceptTuneView st
         = Some (st\<lparr>stretchBlock_calls :=
                      stretchBlock_calls st @ [(blockIndex st, truthy_flag (stretched (data st)))]\<rparr>)"
  using assms
  by (simp add: acceptTuneView_def tunes_def accept_tune_def toggle_modifier_def)

lemma set_modifier_member:
  "x \<in> set (set_modifier st t cl) \<longleftrightarrow>
     (if x = modifier_class (CSS st) t then prop_truthy t (data st) else x \<in> set cl)"
  by (auto simp: set_modifier_def add_token_def)

text \<open>Afterwards the holder has the modifier class of a tune exactly when its flag is set.\<close>

lemma tune_classes_member:
  assumes "t \<in> tune_names"
  shows "modifier_class (CSS st) t \<in> set (tune_classes st cl) \<longleftrightarrow> prop_truthy t (data st)"
  using assms modifier_class_distinct[of "CSS st"]
  by (auto simp: tune_names_def tune_classes_def set_modifier_member)

lemma make_classes_valid:
  "make_classes NoClassNames = Some []"
  "valid_token c \<Longrightarrow> make_classes (ClassName c) = Some [c]"
  "valid_token a \<Longrightarrow> valid_token b \<Longrightarrow> make_classes (ClassNames [a, b]) = Some (add_token b [a])"
  by (auto simp: classList_add_def add_token_def valid_token_def)

lemma make_element_valid:
  "make_element t NoClassNames attrs st = Some (next_id st, new_element t [] attrs st)"
  "valid_token c \<Longrightarrow>
   make_element t (ClassName c) attrs st = Some (next_id st, new_element t [c] attrs st)"
  "valid_token a \<Longrightarrow> valid_token b \<Longrightarrow>
   make_element t (ClassNames [a, b]) attrs st
   = Some (next_id st, new_element t (add_token b [a]) attrs st)"
  unfolding make_element_def new_element_def by (simp_all only: make_classes_valid option.case)

lemma new_element_fields [simp]:
  "CSS (new_element t cl attrs st) = CSS st"
  "data (new_element t cl attrs st) = data st"
  "readOnly (new_element t cl attrs st) = readOnly st"
  "next_id (new_element t cl attrs st) = Suc (next_id st)"
  by (simp_all add: new_element_def)

lemma render_valid:
  assumes "valid_CSS (CSS st)"
  shows "render st = Some (next_id st, rendered st)"
proof -
  from assms have v: "valid_token (baseClass (CSS st))" "valid_token (loading (CSS st))"
    "valid_token (input (CSS st))" "valid_token (wrapperClass (CSS st))"
    "valid_token (imageHolderClass (CSS st))" "valid_token (captionClass (CSS st))"
    by (simp_all add: valid_CSS_def)
  show ?thesis
    unfolding render_def rendered_def
    by (simp add: make_element_valid v Let_def) (simp add: new_element_def createElement_def)
qed


lemma rendered_fields:
  "nodes (rendered st)
   = \<lparr> wrapper = Some (next_id st), imageHolder = Some (Suc (Suc (next_id st))),
       imageNode = Some (Suc (Suc (Suc (next_id st)))),
       captionNode = Some (Suc (Suc (Suc (Suc (next_id st))))) \<rparr>"
  "CSS (rendered st) = CSS st"
  "data (rendered st) = data st"
  "blockIndex (rendered st) = blockIndex st"
  "stretchBlock_calls (rendered st) = stretchBlock_calls st"
  "console (rendered st) = console st"
  "onload (rendered st) (Suc (Suc (Suc (next_id st))))
   = Some \<lparr> h_wrapper = next_id st, h_loader = Suc (next_id st),
            h_imageHolder = Suc (Suc (next_id st)), h_image = Suc (Suc (Suc (next_id st))),
            h_caption = Suc (Suc (Suc (Suc (next_id st)))) \<rparr>"
  "Suc (Suc (Suc (next_id st))) \<in> set (onerror (rendered st))"
  by (simp_all add: rendered_def render_wire_def Let_def)

lemma rendered_shape:
  "children_of (rendered st) (next_id st) = Some [Suc (next_id st)]"
  "parent_of (rendered st) (next_id st) = Some None"
  "children_of (rendered st) (Suc (next_id st)) = Some []"
  "parent_of (rendered st) (Suc (next_id st)) = Some (Some (next_id st))"
  "children_of (rendered st) (Suc (Suc (next_id st))) = Some []"
  "parent_of (rendered st) (Suc (Suc (next_id st))) = Some None"
  "children_of (rendered st) (Suc (Suc (Suc (next_id st)))) = Some []"
  "parent_of (rendered st) (Suc (Suc (Suc (next_id st)))) = Some None"
  "children_of (rendered st) (Suc (Suc (Suc (Suc (next_id st))))) = Some []"
  "parent_of (rendered st) (Suc (Suc (Suc (Suc (next_id st))))) = Some None"
  "map_option classList (doc (rendered st) (Suc (next_id st))) = Some [loading (CSS st)]"
  by (simp_all add: rendered_def render_wire_def Let_def children_of_def parent_of_def
      appendChild_def remove_node_def update_node_def createElement_def)

lemma acceptTuneView_dangling:
  assumes "imageHolder (nodes st) = Some h" "doc st h = None"
  shows "acceptTuneView st
         = Some (st\<lparr>stretchBlock_calls :=
                      stretchBlock_calls st @ [(blockIndex st, truthy_flag (stretched (data st)))]\<rparr>)"
  using assms
  by (simp add: acceptTuneView_def tunes_def accept_tune_def toggle_modifier_def
      update_classList_def)

text \<open>\<open>_acceptTuneView\<close> does not throw when the class of the image holder is a token.\<close>

lemma acceptTuneView_Some:
  assumes "valid_token (imageHolderClass (CSS st))"
  shows "acceptTuneView st
         = Some (st\<lparr>doc := tuned_doc st,
                    stretchBlock_calls :=
                      stretchBlock_calls st @ [(blockIndex st, truthy_flag (stretched (data st)))]\<rparr>)"
proof (cases "imageHolder (nodes st)")
  case None
  then show ?thesis by (simp add: acceptTuneView_no_holder tuned_doc_def)
next
  case (Some h)
  show ?thesis
  proof (cases "doc st h")
    case None
    with Some show ?thesis by (simp add: acceptTuneView_dangling tuned_doc_def)
  next
    case (Some n)
    with \<open>imageHolder (nodes st) = Some h\<close> assms show ?thesis
      by (simp add: acceptTuneView_holder tuned_doc_def)
  qed
qed

lemma tune_names_tunes: "set (map name tunes) = tune_names"
  by (auto simp: tunes_def tune_names_def)

lemma modifier_present_tuned:
  assumes "imageHolder (nodes st) = Some h" "doc st h = Some n" "t \<in> tune_names"
  shows "modifier_present
           (st\<lparr>doc := tuned_doc st,
               stretchBlock_calls := calls\<rparr>) t
         \<longleftrightarrow> prop_truthy t (data st)"
  using assms tune_classes_member[of t st "classList n"]
  by (simp add: modifier_present_def tuned_doc_def)

text \<open>
  C6, as stated: after \<open>_toggleTune\<close> each modifier class is on the image holder exactly
  when its flag is set. Before \<open>render\<close> there is no image holder, and no class is set.
\<close>

theorem toggleTune_before_render:
  "(case toggleTune ''withBorder'' (constructor empty_data example_api False) of
      None \<Rightarrow> False
    | Some st' \<Rightarrow> withBorder (data st') = Some True \<and> \<not> modifier_present st' ''withBorder'')"
  by (simp add: toggleTune_def set_flag_def prop_truthy_def acceptTuneView_no_holder
      modifier_present_def constructor_def set_data_def Let_def assign_def empty_data_def
      decode_url_def)

text \<open>
  C6, amended: for a tune name of the tool, \<open>_toggleTune\<close> stores under that flag the
  negation of its truth value (\<open>true\<close> for an undefined flag) and leaves the other fields
  of the record; it calls \<open>stretchBlock\<close> once, with the block index and the \<open>stretched\<close>
  flag as it is afterwards; when the tool has its image holder, each of the three
  modifier classes is on it afterwards exactly when its flag is set; when it has none,
  the document is left as it is.
\<close>

theorem toggleTune_negates_and_restyles:
  assumes "tune \<in> set (map name tunes)"
    and "valid_token (imageHolderClass (CSS st))"
  shows "\<exists>st'. toggleTune tune st = Some st'
     \<and> data st' =
         (if tune = ''withBorder''
          then (data st)\<lparr>withBorder := Some (\<not> truthy_flag (withBorder (data st)))\<rparr>
          else if tune = ''stretched''
          then (data st)\<lparr>stretched := Some (\<not> truthy_flag (stretched (data st)))\<rparr>
          else (data st)\<lparr>withBackground := Some (\<not> truthy_flag (withBackground (data st)))\<rparr>)
     \<and> prop_truthy tune (data st') = (\<not> prop_truthy tune (data st))
     \<and> url (data st') = url (data st) \<and> caption (data st') = caption (data st)
     \<and> (tune \<noteq> ''withBorder'' \<longrightarrow> withBorder (data st') = withBorder (data st))
     \<and> (tune \<noteq> ''stretched'' \<longrightarrow> stretched (data st') = stretched (data st))
     \<and> (tune \<noteq> ''withBackground'' \<longrightarrow> withBackground (data st') = withBackground (data st))
     \<and> stretchBlock_calls st'
         = stretchBlock_calls st @ [(blockIndex st, truthy_flag (stretched (data st')))]
     \<and> (\<forall>h n. imageHolder (nodes st) = Some h \<longrightarrow> doc st h = Some n \<longrightarrow>
           (\<forall>t \<in> set (map name tunes). modifier_present st' t \<longleftrightarrow> prop_truthy t (data st')))
     \<and> (imageHolder (nodes st) = None \<longrightarrow> doc st' = doc st)"
proof -
  define d where "d =
         (if tune = ''withBorder''
          then (data st)\<lparr>withBorder := Some (\<not> truthy_flag (withBorder (data st)))\<rparr>
          else if tune = ''stretched''
          then (data st)\<lparr>stretched := Some (\<not> truthy_flag (stretched (data st)))\<rparr>
          else (data st)\<lparr>withBackground := Some (\<not> truthy_flag (withBackground (data st)))\<rparr>)"
  from assms(1) have d: "set_flag tune (\<not> prop_truthy tune (data st)) (data st) = Some d"
    and flip: "prop_truthy tune d = (\<not> prop_truthy tune (data st))"
    and same: "url d = url (data st)" "caption d = caption (data st)"
      "tune \<noteq> ''withBorder'' \<longrightarrow> withBorder d = withBorder (data st)"
      "tune \<noteq> ''stretched'' \<longrightarrow> stretched d = stretched (data st)"
      "tune \<noteq> ''withBackground'' \<longrightarrow> withBackground d = withBackground (data st)"
    by (auto simp: d_def tunes_def set_flag_def prop_truthy_def)
  let ?s = "st\<lparr>data := d\<rparr>"
  let ?st' = "?s\<lparr>doc := tuned_doc ?s,
                 stretchBlock_calls :=
                   stretchBlock_calls ?s @ [(blockIndex ?s, truthy_flag (stretched (data ?s)))]\<rparr>"
  have v: "valid_token (imageHolderClass (CSS ?s))" using assms(2) by simp
  have t: "toggleTune tune st = Some ?st'"
    using acceptTuneView_Some[OF v] by (simp add: toggleTune_def d)
  have present: "\<forall>h n. imageHolder (nodes st) = Some h \<longrightarrow> doc st h = Some n \<longrightarrow>
           (\<forall>t \<in> set (map name tunes). modifier_present ?st' t \<longleftrightarrow> prop_truthy t (data ?st'))"
  proof (intro allI impI ballI)
    fix h n t
    assume "imageHolder (nodes st) = Some h" "doc st h = Some n" "t \<in> set (map name tunes)"
    then have "imageHolder (nodes ?s) = Some h" "doc ?s h = Some n" "t \<in> tune_names"
      using tune_names_tunes by simp_all
    from modifier_present_tuned[OF this]
    show "modifier_present ?st' t \<longleftrightarrow> prop_truthy t (data ?st')" by simp
  qed
  have none: "imageHolder (nodes st) = None \<longrightarrow> doc ?st' = doc st"
    by (simp add: tuned_doc_def)
  have deq: "data ?st' =
         (if tune = ''withBorder''
          then (data st)\<lparr>withBorder := Some (\<not> truthy_flag (withBorder (data st)))\<rparr>
          else if tune = ''stretched''
          then (data st)\<lparr>stretched := Some (\<not> truthy_flag (stretched (data st)))\<rparr>
          else (data st)\<lparr>withBackground := Some (\<not> truthy_flag (withBackground (data st)))\<rparr>)"
    using d_def by simp
  have rest: "prop_truthy tune (data ?st') = (\<not> prop_truthy tune (data st))
     \<and> url (data ?st') = url (data st) \<and> caption (data ?st') = caption (data st)
     \<and> (tune \<noteq> ''withBorder'' \<longrightarrow> withBorder (data ?st') = withBorder (data st))
     \<and> (tune \<noteq> ''stretched'' \<longrightarrow> stretched (data ?st') = stretched (data st))
     \<and> (tune \<noteq> ''withBackground'' \<longrightarrow> withBackground (data ?st') = withBackground (data st))
     \<and> stretchBlock_calls ?st'
         = stretchBlock_calls st @ [(blockIndex st, truthy_flag (stretched (data ?st')))]"
    using flip same by simp
  from t deq rest present none show ?thesis
    by (intro exI[of _ ?st'] conjI) blast+
qed

lemma example_constructed:
  "CSS (constructor d example_api ro)
   = \<lparr> baseClass = ''cdx-block'', loading = ''cdx-loader'', input = ''cdx-input'',
       wrapperClass = ''cdx-simple-image'', imageHolderClass = ''cdx-simple-image__picture'',
       captionClass = ''cdx-simple-image__caption'' \<rparr>"
  "next_id (constructor d example_api ro) = 0"
  "blockIndex (constructor d example_api ro) = 1"
  "stretchBlock_calls (constructor d example_api ro) = []"
  "console (constructor d example_api ro) = []"
  by (simp_all add: constructor_def set_data_def Let_def example_api_def)

lemma example_tokens:
  "valid_token ''cdx-block''" "valid_token ''cdx-loader''" "valid_token ''cdx-input''"
  "valid_token ''cdx-simple-image''" "valid_token ''cdx-simple-image__picture''"
  "valid_token ''cdx-simple-image__caption''"
  by code_simp+

lemma example_valid_CSS: "valid_CSS (CSS (constructor d example_api ro))"
  unfolding example_constructed valid_CSS_def using example_tokens by simp

theorem toggleTune_negates_and_restyles_witness:
  "\<exists>w st1 st' st''.
      render (constructor (empty_data\<lparr>withBorder := Some True, stretched := Some True\<rparr>)
                example_api False) = Some (w, st1)
      \<and> toggleTune ''stretched'' st1 = Some st'
      \<and> data st' = \<lparr> url = Some [], caption = Some [], withBorder = Some True,
                      withBackground = Some False, stretched = Some False \<rparr>
      \<and> modifier_present st' ''withBorder''
      \<and> \<not> modifier_present st' ''stretched''
      \<and> \<not> modifier_present st' ''withBackground''
      \<and> stretchBlock_calls st' = [(1, False)]
      \<and> toggleTune ''withBackground'' st1 = Some st''
      \<and> data st'' = \<lparr> url = Some [], caption = Some [], withBorder = Some True,
                       withBackground = Some True, stretched = Some True \<rparr>
      \<and> modifier_present st'' ''withBackground''
      \<and> stretchBlock_calls st'' = [(1, True)]"
proof -
  let ?st0 = "constructor (empty_data\<lparr>withBorder := Some True, stretched := Some True\<rparr>)
                example_api False"
  let ?st1 = "rendered ?st0"
  have r: "render ?st0 = Some (next_id ?st0, ?st1)"
    by (rule render_valid[OF example_valid_CSS])
  have d0: "data ?st0 = \<lparr> url = Some [], caption = Some [], withBorder = Some True,
                         withBackground = Some False, stretched = Some True \<rparr>"
    by (simp add: constructor_def data_set_data decode_url_def assign_def empty_data_def)
  then have d1: "data ?st1 = \<lparr> url = Some [], caption = Some [], withBorder = Some True,
                         withBackground = Some False, stretched = Some True \<rparr>"
    by (simp only: rendered_fields)
  have v: "valid_token (imageHolderClass (CSS ?st1))"
    unfolding rendered_fields example_constructed using example_tokens by simp
  have h: "imageHolder (nodes ?st1) = Some (Suc (Suc 0))"
    unfolding rendered_fields example_constructed by simp
  from rendered_shape(5)[of ?st0] obtain n where n: "doc ?st1 (Suc (Suc 0)) = Some n"
    unfolding example_constructed by (auto simp: children_of_def)
  have c1: "stretchBlock_calls ?st1 = []" "blockIndex ?st1 = 1"
    by (simp_all add: rendered_fields example_constructed)
  have t: "''withBackground'' \<in> set (map name tunes)" "''withBorder'' \<in> set (map name tunes)"
    "''stretched'' \<in> set (map name tunes)"
    by (simp_all add: tunes_def)
  from toggleTune_negates_and_restyles[OF t(3) v] obtain st' where
    st': "toggleTune ''stretched'' ?st1 = Some st'"
    and dat: "data st' = (data ?st1)\<lparr>stretched := Some (\<not> truthy_flag (stretched (data ?st1)))\<rparr>"
    and calls: "stretchBlock_calls st'
                = stretchBlock_calls ?st1 @ [(blockIndex ?st1, truthy_flag (stretched (data st')))]"
    and present: "\<forall>t \<in> set (map name tunes). modifier_present st' t \<longleftrightarrow> prop_truthy t (data st')"
    using h n by auto
  from dat have dat': "data st' = \<lparr> url = Some [], caption = Some [], withBorder = Some True,
                      withBackground = Some False, stretched = Some False \<rparr>"
    by (simp add: d1)
  from present t have p: "modifier_present st' ''withBorder'' \<longleftrightarrow> prop_truthy ''withBorder'' (data st')"
    "modifier_present st' ''stretched'' \<longleftrightarrow> prop_truthy ''stretched'' (data st')"
    "modifier_present st' ''withBackground'' \<longleftrightarrow> prop_truthy ''withBackground'' (data st')"
    by blast+
  have p': "modifier_present st' ''withBorder''" "\<not> modifier_present st' ''stretched''"
    "\<not> modifier_present st' ''withBackground''"
    unfolding p dat' by (simp_all add: prop_truthy_def)
  from calls have calls': "stretchBlock_calls st' = [(1, False)]"
    by (simp add: c1 dat')
  from toggleTune_negates_and_restyles[OF t(1) v] obtain st'' where
    st'': "toggleTune ''withBackground'' ?st1 = Some st''"
    and dat2: "data st'' = (data ?st1)\<lparr>withBackground := Some (\<not> truthy_flag (withBackground (data ?st1)))\<rparr>"
    and calls2: "stretchBlock_calls st''
                = stretchBlock_calls ?st1 @ [(blockIndex ?st1, truthy_flag (stretched (data st'')))]"
    and present2: "\<forall>t \<in> set (map name tunes). modifier_present st'' t \<longleftrightarrow> prop_truthy t (data st'')"
    using h n by auto
  from dat2 have dat2': "data st'' = \<lparr> url = Some [], caption = Some [], withBorder = Some True,
                       withBackground = Some True, stretched = Some True \<rparr>"
    by (simp add: d1)
  from present2 t(1)
  have "modifier_present st'' ''withBackground'' \<longleftrightarrow> prop_truthy ''withBackground'' (data st'')"
    by blast
  then have p2: "modifier_present st'' ''withBackground''"
    unfolding dat2' by (simp add: prop_truthy_def)
  from calls2 have calls2': "stretchBlock_calls st'' = [(1, True)]"
    by (simp add: c1 dat2')
  from r st' dat' p' calls' st'' dat2' p2 calls2' show ?thesis by blast
qed

section \<open>Rendering and the load event\<close>

lemma doc_shape_update_node:
  assumes "\<And>n. childNodes (f n) = childNodes n" "\<And>n. parentNode (f n) = parentNode n"
  shows "doc_shape (update_node i f d) = doc_shape d"
  using assms by (auto simp: doc_shape_def update_node_def fun_eq_iff split: option.splits)

lemma doc_shape_classList:
  "d h = Some n \<Longrightarrow> doc_shape (d(h \<mapsto> n\<lparr>classList := cl\<rparr>)) = doc_shape d"
  by (auto simp: doc_shape_def fun_eq_iff)

lemma children_of_shape: "children_of st i = map_option fst (doc_shape (doc st) i)"
  by (simp add: children_of_def doc_shape_def option.map_comp comp_def)

lemma parent_of_shape: "parent_of st i = map_option snd (doc_shape (doc st) i)"
  by (simp add: parent_of_def doc_shape_def option.map_comp comp_def)

lemma frame_set_data: "frame (set_data d st) = frame st"
  by (simp add: frame_def set_data_def Let_def doc_shape_update_node split: option.splits)

lemma frame_save: "save e st = Some (r, st') \<Longrightarrow> frame st' = frame st"
  by (auto simp: save_def Let_def frame_def split: if_splits option.splits)

lemma frame_onPaste: "frame (fst (onPaste ev st)) = frame st"
  by (cases ev) (simp_all add: frame_set_data)

lemma frame_promise_then: "frame (promise_then p st) = frame st"
  by (cases p) (simp_all add: frame_set_data)

lemma frame_error_event: "frame (error_event i st) = frame st"
  by (simp add: error_event_def frame_def)

lemma frame_toggle_modifier: "toggle_modifier t st = Some st' \<Longrightarrow> frame st' = frame st"
  by (auto simp: toggle_modifier_def update_classList_def frame_def doc_shape_classList
      split: option.splits)

lemma frame_accept_tune: "accept_tune t st = Some st' \<Longrightarrow> frame st' = frame st"
proof -
  assume a: "accept_tune t st = Some st'"
  then obtain s1 where s1: "toggle_modifier t st = Some s1"
    by (auto simp: accept_tune_def split: option.splits)
  then have "frame s1 = frame st" by (rule frame_toggle_modifier)
  moreover from a s1 have "frame st' = frame s1"
    by (auto simp: accept_tune_def frame_def split: if_splits)
  ultimately show ?thesis by simp
qed

lemma forEach_preserves:
  assumes "\<And>x s s'. f x s = Some s' \<Longrightarrow> g s' = g s"
  shows "forEach f xs s = Some s' \<Longrightarrow> g s' = g s"
proof (induction xs arbitrary: s)
  case Nil
  then show ?case by simp
next
  case (Cons x xs)
  then obtain s1 where 1: "f x s = Some s1" and 2: "forEach f xs s1 = Some s'"
    by (auto split: option.splits)
  from Cons.IH[OF 2] assms[OF 1] show ?case by simp
qed

lemma frame_acceptTuneView: "acceptTuneView st = Some st' \<Longrightarrow> frame st' = frame st"
  unfolding acceptTuneView_def by (rule forEach_preserves[OF frame_accept_tune])

lemma frame_toggleTune: "toggleTune t st = Some st' \<Longrightarrow> frame st' = frame st"
proof -
  assume a: "toggleTune t st = Some st'"
  then obtain d where "acceptTuneView (st\<lparr>data := d\<rparr>) = Some st'"
    by (auto simp: toggleTune_def split: option.splits)
  then have "frame st' = frame (st\<lparr>data := d\<rparr>)" by (rule frame_acceptTuneView)
  then show ?thesis by (simp add: frame_def)
qed

lemma frame_step: "step a st = Some st' \<Longrightarrow> frame st' = frame st"
proof (cases a)
  case (Save e)
  assume "step a st = Some st'"
  with Save obtain r where "save e st = Some (r, st')" by auto
  then show ?thesis by (rule frame_save)
qed (auto simp: frame_set_data frame_onPaste frame_promise_then frame_toggleTune frame_error_event
     simp del: promise_then.simps)

text \<open>No action other than the event \<open>load\<close> changes the frame of the tool.\<close>

lemma frame_run: "run acts st = Some st' \<Longrightarrow> frame st' = frame st"
  unfolding run_def by (rule forEach_preserves[OF frame_step])

text \<open>The tree after the callback of \<open>load\<close>, from the tree that \<open>render\<close> has built.\<close>

lemma appendChild_orphan:
  assumes "c \<noteq> p" "d c = Some nc" "parentNode nc = None" "d p = Some np"
  shows "appendChild p c d
         = d(p \<mapsto> np\<lparr>childNodes := childNodes np @ [c]\<rparr>, c \<mapsto> nc\<lparr>parentNode := Some p\<rparr>)"
proof -
  have "remove_node c d = d" using assms(2,3) by (simp add: remove_node_def)
  then show ?thesis using assms by (simp add: appendChild_def update_node_def)
qed

lemma remove_node_child:
  assumes "c \<noteq> p" "d c = Some nc" "parentNode nc = Some p" "d p = Some np"
  shows "remove_node c d
         = d(p \<mapsto> np\<lparr>childNodes := removeAll c (childNodes np)\<rparr>, c \<mapsto> nc\<lparr>parentNode := None\<rparr>)"
  using assms by (simp add: remove_node_def update_node_def)

lemma loaded_document:
  assumes dist: "distinct [w, l, h, i, c]"
    and w: "d w = Some nw" "childNodes nw = [l]"
    and l: "d l = Some nl" "parentNode nl = Some w"
    and h: "d h = Some nh" "childNodes nh = []" "parentNode nh = None"
    and i: "d i = Some ni" "parentNode ni = None"
    and c: "d c = Some nc" "parentNode nc = None"
  shows "doc_shape (remove_node l (appendChild w c (appendChild w h (appendChild h i d)))) w
         = Some ([h, c], parentNode nw)"
    and "doc_shape (remove_node l (appendChild w c (appendChild w h (appendChild h i d)))) h
         = Some ([i], Some w)"
    and "doc_shape (remove_node l (appendChild w c (appendChild w h (appendChild h i d)))) l
         = Some (childNodes nl, None)"
proof -
  from dist have ne: "i \<noteq> h" "h \<noteq> w" "c \<noteq> w" "l \<noteq> w" "w \<noteq> i" "w \<noteq> h" "h \<noteq> c" "i \<noteq> c"
    "l \<noteq> h" "l \<noteq> i" "l \<noteq> c" "c \<noteq> h" "c \<noteq> i" "h \<noteq> l" "w \<noteq> l" "w \<noteq> c"
    by auto
  define nh2 where "nh2 = nh\<lparr>childNodes := childNodes nh @ [i]\<rparr>"
  define d2 where "d2 = d(h \<mapsto> nh2, i \<mapsto> ni\<lparr>parentNode := Some h\<rparr>)"
  have 2: "appendChild h i d = d2"
    unfolding d2_def nh2_def using ne(1) i h(1) by (rule appendChild_orphan)
  have d2: "d2 h = Some nh2" "d2 w = Some nw" "d2 c = Some nc" "d2 l = Some nl"
    using ne w(1) c(1) l(1) by (simp_all add: d2_def)
  define nw3 where "nw3 = nw\<lparr>childNodes := childNodes nw @ [h]\<rparr>"
  define nh3 where "nh3 = nh2\<lparr>parentNode := Some w\<rparr>"
  define d3 where "d3 = d2(w \<mapsto> nw3, h \<mapsto> nh3)"
  have "parentNode nh2 = None" using h(3) by (simp add: nh2_def)
  with ne(2) d2(1) have 3: "appendChild w h d2 = d3"
    unfolding d3_def nw3_def nh3_def using d2(2) by (rule appendChild_orphan)
  have d3: "d3 w = Some nw3" "d3 c = Some nc" "d3 l = Some nl" "d3 h = Some nh3"
    using ne d2 by (simp_all add: d3_def)
  define nw4 where "nw4 = nw3\<lparr>childNodes := childNodes nw3 @ [c]\<rparr>"
  define d4 where "d4 = d3(w \<mapsto> nw4, c \<mapsto> nc\<lparr>parentNode := Some w\<rparr>)"
  have 4: "appendChild w c d3 = d4"
    unfolding d4_def nw4_def using ne(3) d3(2) c(2) d3(1) by (rule appendChild_orphan)
  have d4: "d4 w = Some nw4" "d4 l = Some nl" "d4 h = Some nh3"
    using ne d3 by (simp_all add: d4_def)
  define d5 where "d5 = d4(w \<mapsto> nw4\<lparr>childNodes := removeAll l (childNodes nw4)\<rparr>,
                         l \<mapsto> nl\<lparr>parentNode := None\<rparr>)"
  have 5: "remove_node l d4 = d5"
    unfolding d5_def using ne(4) d4(2) l(2) d4(1) by (rule remove_node_child)
  have all: "remove_node l (appendChild w c (appendChild w h (appendChild h i d))) = d5"
    by (simp only: 2 3 4 5)
  have "childNodes nw4 = [l, h, c]" by (simp add: nw4_def nw3_def w(2))
  then show "doc_shape (remove_node l (appendChild w c (appendChild w h (appendChild h i d)))) w
         = Some ([h, c], parentNode nw)"
    unfolding all using ne by (simp add: doc_shape_def d5_def nw4_def nw3_def)
  show "doc_shape (remove_node l (appendChild w c (appendChild w h (appendChild h i d)))) h
         = Some ([i], Some w)"
    unfolding all using ne d4(3) h(2) by (simp add: doc_shape_def d5_def nh3_def nh2_def)
  show "doc_shape (remove_node l (appendChild w c (appendChild w h (appendChild h i d)))) l
         = Some (childNodes nl, None)"
    unfolding all using ne by (simp add: doc_shape_def d5_def)
qed

lemma doc_shape_tuned_doc: "doc_shape (tuned_doc st) = doc_shape (doc st)"
  by (auto simp: tuned_doc_def doc_shape_classList split: option.splits)

lemma doc_shape_Some:
  "doc_shape d i = Some (ch, p) \<Longrightarrow> \<exists>n. d i = Some n \<and> childNodes n = ch \<and> parentNode n = p"
  by (auto simp: doc_shape_def)

lemma rendered_doc_shape:
  "doc_shape (doc (rendered st)) (next_id st) = Some ([Suc (next_id st)], None)"
  "doc_shape (doc (rendered st)) (Suc (next_id st)) = Some ([], Some (next_id st))"
  "doc_shape (doc (rendered st)) (Suc (Suc (next_id st))) = Some ([], None)"
  "doc_shape (doc (rendered st)) (Suc (Suc (Suc (next_id st)))) = Some ([], None)"
  "doc_shape (doc (rendered st)) (Suc (Suc (Suc (Suc (next_id st))))) = Some ([], None)"
  by (simp_all add: rendered_def render_wire_def Let_def doc_shape_def
      appendChild_def remove_node_def update_node_def createElement_def)

lemma load_after_render:
  assumes v: "valid_CSS (CSS st)" and f: "frame st2 = frame (rendered st)"
  shows "\<exists>st3. load_event (Suc (Suc (Suc (next_id st)))) st2 = Some st3
           \<and> children_of st3 (next_id st)
               = Some [Suc (Suc (next_id st)), Suc (Suc (Suc (Suc (next_id st))))]
           \<and> children_of st3 (Suc (Suc (next_id st))) = Some [Suc (Suc (Suc (next_id st)))]
           \<and> parent_of st3 (Suc (next_id st)) = Some None"
proof -
  let ?w = "next_id st" let ?l = "Suc ?w" let ?h = "Suc ?l" let ?i = "Suc ?h" let ?c = "Suc ?i"
  from f have css: "CSS st2 = CSS st" and nodes: "nodes st2 = nodes (rendered st)"
    and onl: "onload st2 = onload (rendered st)"
    and sh: "doc_shape (doc st2) = doc_shape (doc (rendered st))"
    by (simp_all add: frame_def rendered_fields)
  from v have vl: "valid_token (loading (CSS st))" and vh: "valid_token (imageHolderClass (CSS st))"
    by (simp_all add: valid_CSS_def)
  obtain nw where nw: "doc st2 ?w = Some nw" "childNodes nw = [?l]" "parentNode nw = None"
    using doc_shape_Some[of "doc st2" ?w] sh rendered_doc_shape(1)[of st] by auto
  obtain nl where nl: "doc st2 ?l = Some nl" "childNodes nl = []" "parentNode nl = Some ?w"
    using doc_shape_Some[of "doc st2" ?l] sh rendered_doc_shape(2)[of st] by auto
  obtain nh where nh: "doc st2 ?h = Some nh" "childNodes nh = []" "parentNode nh = None"
    using doc_shape_Some[of "doc st2" ?h] sh rendered_doc_shape(3)[of st] by auto
  obtain ni where ni: "doc st2 ?i = Some ni" "childNodes ni = []" "parentNode ni = None"
    using doc_shape_Some[of "doc st2" ?i] sh rendered_doc_shape(4)[of st] by auto
  obtain nc where nc: "doc st2 ?c = Some nc" "childNodes nc = []" "parentNode nc = None"
    using doc_shape_Some[of "doc st2" ?c] sh rendered_doc_shape(5)[of st] by auto
  let ?nw' = "nw\<lparr>classList := removeAll (loading (CSS st)) (classList nw)\<rparr>"
  let ?d1 = "(doc st2)(?w \<mapsto> ?nw')"
  let ?d5 = "remove_node ?l (appendChild ?w ?c (appendChild ?w ?h (appendChild ?h ?i ?d1)))"
  let ?s = "st2\<lparr>doc := ?d5\<rparr>"
  have u: "update_classList ?w (classList_remove (loading (CSS st2))) (doc st2) = Some ?d1"
    using nw(1) vl by (simp add: update_classList_def classList_remove_def css)
  have dist: "distinct [?w, ?l, ?h, ?i, ?c]" by simp
  have d1: "?d1 ?w = Some ?nw'" "childNodes ?nw' = [?l]" "?d1 ?l = Some nl" "?d1 ?h = Some nh"
    "?d1 ?i = Some ni" "?d1 ?c = Some nc"
    using nw nl nh ni nc by simp_all
  note ld = loaded_document[OF dist d1(1,2) d1(3) nl(3) d1(4) nh(2,3) d1(5) ni(3) d1(6) nc(3)]
  have vs: "valid_token (imageHolderClass (CSS ?s))" using vh css by simp
  let ?st3 = "?s\<lparr>doc := tuned_doc ?s,
                 stretchBlock_calls :=
                   stretchBlock_calls ?s @ [(blockIndex ?s, truthy_flag (stretched (data ?s)))]\<rparr>"
  have "image_onload \<lparr>h_wrapper = ?w, h_loader = ?l, h_imageHolder = ?h, h_image = ?i,
                       h_caption = ?c\<rparr> st2 = Some ?st3"
    using acceptTuneView_Some[OF vs] by (simp add: image_onload_def u)
  then have le: "load_event ?i st2 = Some ?st3"
    by (simp add: load_event_def onl rendered_fields)
  have sh3: "doc_shape (doc ?st3) = doc_shape ?d5"
    using doc_shape_tuned_doc[of ?s] by simp
  have "children_of ?st3 ?w = Some [?h, ?c]" "children_of ?st3 ?h = Some [?i]"
    "parent_of ?st3 ?l = Some None"
    unfolding children_of_shape parent_of_shape sh3 ld by simp_all
  with le show ?thesis by blast
qed

text \<open>
  C8: \<open>render\<close> returns a wrapper whose only child is the loader. Whatever the host does
  to the tool afterwards, the wrapper keeps this one child until the event \<open>load\<close> of the
  image; the callback of \<open>load\<close> leaves the wrapper with the image holder, which holds the
  image, and the caption as its children, and the loader without a parent. The event
  \<open>error\<close> adds a line to the console and changes nothing else.
\<close>

theorem render_loading_until_load:
  assumes "valid_CSS (CSS st)"
  shows "\<exists>w l h i c st1. render st = Some (w, st1)
     \<and> nodes st1 = \<lparr> wrapper = Some w, imageHolder = Some h, imageNode = Some i,
                     captionNode = Some c \<rparr>
     \<and> children_of st1 w = Some [l]
     \<and> map_option classList (doc st1 l) = Some [loading (CSS st)]
     \<and> (\<forall>acts st2. run acts st1 = Some st2 \<longrightarrow>
           children_of st2 w = Some [l]
           \<and> (\<exists>st3. load_event i st2 = Some st3
                 \<and> children_of st3 w = Some [h, c]
                 \<and> children_of st3 h = Some [i]
                 \<and> parent_of st3 l = Some None)
           \<and> error_event i st2 = st2\<lparr>console := console st2 @ [''Failed to load an image'']\<rparr>)"
proof -
  let ?w = "next_id st" let ?l = "Suc ?w" let ?h = "Suc ?l" let ?i = "Suc ?h" let ?c = "Suc ?i"
  let ?st1 = "rendered st"
  have r: "render st = Some (?w, ?st1)" using assms by (rule render_valid)
  have run: "children_of st2 ?w = Some [?l]
           \<and> (\<exists>st3. load_event ?i st2 = Some st3
                 \<and> children_of st3 ?w = Some [?h, ?c]
                 \<and> children_of st3 ?h = Some [?i]
                 \<and> parent_of st3 ?l = Some None)
           \<and> error_event ?i st2 = st2\<lparr>console := console st2 @ [''Failed to load an image'']\<rparr>"
    if "run acts ?st1 = Some st2" for acts st2
  proof -
    from that have f: "frame st2 = frame ?st1" by (rule frame_run)
    then have "doc_shape (doc st2) = doc_shape (doc ?st1)" "onerror st2 = onerror ?st1"
      by (simp_all add: frame_def)
    then have "children_of st2 ?w = Some [?l]" "?i \<in> set (onerror st2)"
      using rendered_shape(1)[of st] rendered_fields(8)[of st]
      by (simp_all add: children_of_shape)
    moreover from this(2)
    have "error_event ?i st2 = st2\<lparr>console := console st2 @ [''Failed to load an image'']\<rparr>"
      by (simp add: error_event_def)
    ultimately show ?thesis using load_after_render[OF assms f] by blast
  qed
  show ?thesis
    using r rendered_fields(1)[of st] rendered_shape(1,11)[of st] run
    by (intro exI[of _ ?w] exI[of _ ?l] exI[of _ ?h] exI[of _ ?i] exI[of _ ?c] exI[of _ ?st1])
       blast
qed

theorem render_loading_until_load_witness:
  "\<exists>w l h i c st1 st2 st3.
      render (constructor empty_data example_api False) = Some (w, st1)
      \<and> children_of st1 w = Some [l]
      \<and> run [Paste (PatternPasteEvent ''http://x/a.png''), ErrorEvent i] st1 = Some st2
      \<and> children_of st2 w = Some [l]
      \<and> console st2 = [''Failed to load an image'']
      \<and> load_event i st2 = Some st3
      \<and> children_of st3 w = Some [h, c]
      \<and> children_of st3 h = Some [i]"
proof -
  let ?st0 = "constructor empty_data example_api False"
  let ?acts = "\<lambda>i. [Paste (PatternPasteEvent ''http://x/a.png''), ErrorEvent i]"
  from render_loading_until_load[OF example_valid_CSS, of empty_data False]
  obtain w l h i c st1 where r: "render ?st0 = Some (w, st1)"
    and k: "children_of st1 w = Some [l]"
    and a: "\<forall>acts st2. run acts st1 = Some st2 \<longrightarrow>
           children_of st2 w = Some [l]
           \<and> (\<exists>st3. load_event i st2 = Some st3
                 \<and> children_of st3 w = Some [h, c]
                 \<and> children_of st3 h = Some [i]
                 \<and> parent_of st3 l = Some None)
           \<and> error_event i st2 = st2\<lparr>console := console st2 @ [''Failed to load an image'']\<rparr>"
    by blast
  let ?s = "fst (onPaste (PatternPasteEvent ''http://x/a.png'') st1)"
  have r1: "run [Paste (PatternPasteEvent ''http://x/a.png'')] st1 = Some ?s"
    by (simp add: run_def)
  have r2: "run (?acts i) st1 = Some (error_event i ?s)"
    by (simp add: run_def)
  from a r1 have e: "error_event i ?s = ?s\<lparr>console := console ?s @ [''Failed to load an image'']\<rparr>"
    by blast
  have "st1 = rendered ?st0" using r render_valid[OF example_valid_CSS, of empty_data False] by simp
  then have "console ?s = []"
    by (simp add: set_data_def Let_def rendered_fields example_constructed)
  with e have c2: "console (error_event i ?s) = [''Failed to load an image'']" by simp
  from a r2 obtain st3 where "children_of (error_event i ?s) w = Some [l]"
    "load_event i (error_event i ?s) = Some st3" "children_of st3 w = Some [h, c]"
    "children_of st3 h = Some [i]"
    by blast
  with r k r2 c2 show ?thesis by blast
qed

end
